theory Spec2Isabelle
  imports Complex_Main
begin

section \<open>The particle morphing engine of MorphingParticles.tsx\<close>

text \<open>
  The development embeds the Pattern Generators, the Normalizer and the Morph Controller
  of \<^verbatim>\<open>src/components/MorphingParticles.tsx\<close>.

  Numbers. The model of the whole engine computes in exact arithmetic: a JavaScript
  \<^verbatim>\<open>number\<close> is a mathematical \<open>real\<close>, and a store into a \<^verbatim>\<open>Float32Array\<close>
  keeps the value as it is. What is proved of it holds of the code up to floating-point
  rounding. Where a property depends on the rounding itself (whether the last frame of a
  morph leaves exactly the target in the buffer), the loops concerned are given a second
  time with the arithmetic of the code: every operation rounded to IEEE-754 double
  precision, every store into a \<^verbatim>\<open>Float32Array\<close> rounded to single precision
  (subsection \<open>The arithmetic of the code\<close>).
  The one way in which the code can produce \<^verbatim>\<open>NaN\<close> without overflow is a read of a
  typed array out of range (\<^verbatim>\<open>undefined\<close> entering arithmetic), so a cell of a typed
  array is a \<open>real option\<close> with \<open>None\<close> for \<^verbatim>\<open>NaN\<close>.

  Exceptions. Calling \<^verbatim>\<open>.clone()\<close> on \<^verbatim>\<open>undefined\<close> (an array read out of
  range) raises a \<^verbatim>\<open>TypeError\<close>; functions that can raise return \<open>error + 'a\<close>.

  \<^verbatim>\<open>Math.random()\<close> is an oracle \<open>rnd :: nat \<Rightarrow> real\<close>: \<open>rnd k\<close> is the value of
  the \<open>k\<close>-th call made by one generator invocation.
\<close>

subsection \<open>THREE.Vector3 and THREE.Box3\<close>

datatype vec3 = Vector3 (vx: real) (vy: real) (vz: real)

datatype error = TypeError

type_synonym cell = "real option"

definition zero3 :: vec3 where
  "zero3 = Vector3 0 0 0"

definition sub :: "vec3 \<Rightarrow> vec3 \<Rightarrow> vec3" where
  "sub p q = Vector3 (vx p - vx q) (vy p - vy q) (vz p - vz q)"

definition addVectors :: "vec3 \<Rightarrow> vec3 \<Rightarrow> vec3" where
  "addVectors p q = Vector3 (vx p + vx q) (vy p + vy q) (vz p + vz q)"

definition multiplyScalar :: "vec3 \<Rightarrow> real \<Rightarrow> vec3" where
  "multiplyScalar p k = Vector3 (vx p * k) (vy p * k) (vz p * k)"

definition vmin :: "vec3 \<Rightarrow> vec3 \<Rightarrow> vec3" where
  "vmin p q = Vector3 (min (vx p) (vx q)) (min (vy p) (vy q)) (min (vz p) (vz q))"

definition vmax :: "vec3 \<Rightarrow> vec3 \<Rightarrow> vec3" where
  "vmax p q = Vector3 (max (vx p) (vx q)) (max (vy p) (vy q)) (max (vz p) (vz q))"

definition toArray :: "vec3 \<Rightarrow> real list" where
  "toArray p = [vx p, vy p, vz p]"

text \<open>
  \<^verbatim>\<open>Box3\<close> of three.js. A fresh box is empty (\<open>min = +\<infinity>\<close>, \<open>max = -\<infinity>\<close>);
  \<^verbatim>\<open>expandByPoint\<close> takes the componentwise minimum and maximum, so the first point
  of an empty box becomes both corners. \<^verbatim>\<open>getSize\<close> and \<^verbatim>\<open>getCenter\<close> answer the
  zero vector for an empty box (\<^verbatim>\<open>isEmpty\<close>: some \<open>max\<close> component below \<open>min\<close>).
\<close>

datatype box3 = EmptyBox | Box3 (bmin: vec3) (bmax: vec3)

fun expandByPoint :: "box3 \<Rightarrow> vec3 \<Rightarrow> box3" where
  "expandByPoint EmptyBox p = Box3 p p"
| "expandByPoint (Box3 lo hi) p = Box3 (vmin lo p) (vmax hi p)"

definition setFromPoints :: "vec3 list \<Rightarrow> box3" where
  "setFromPoints points = foldl expandByPoint EmptyBox points"

fun isEmpty :: "box3 \<Rightarrow> bool" where
  "isEmpty EmptyBox = True"
| "isEmpty (Box3 lo hi) = (vx hi < vx lo \<or> vy hi < vy lo \<or> vz hi < vz lo)"

definition getSize :: "box3 \<Rightarrow> vec3" where
  "getSize box = (if isEmpty box then zero3 else sub (bmax box) (bmin box))"

definition getCenter :: "box3 \<Rightarrow> vec3" where
  "getCenter box =
     (if isEmpty box then zero3 else multiplyScalar (addVectors (bmin box) (bmax box)) (1 / 2))"

subsection \<open>The Normalizer\<close>

text \<open>\<^verbatim>\<open>Math.max(...xs)\<close> of a three-element array.\<close>

definition Math_max :: "real list \<Rightarrow> real" where
  "Math_max xs = foldl max (hd xs) (tl xs)"

text \<open>The extent of the bounding box before the \<^verbatim>\<open>|| 1\<close> fallback.\<close>

definition extent :: "vec3 list \<Rightarrow> real" where
  "extent points = Math_max (toArray (getSize (setFromPoints points)))"

text \<open>
  \<^verbatim>\<open>
  function normalise(points, size) {
      if (points.length === 0) return [];
      const box = new THREE.Box3().setFromPoints(points);
      const maxDim = Math.max(...box.getSize(new THREE.Vector3()).toArray()) || 1;
      const centre = box.getCenter(new THREE.Vector3());
      return points.map(p => p.clone().sub(centre).multiplyScalar(size / maxDim));
  }
  \<close>
  \<^verbatim>\<open>x || 1\<close> is \<open>1\<close> when \<open>x\<close> is \<open>0\<close> (or \<^verbatim>\<open>NaN\<close>) and \<open>x\<close> otherwise.
\<close>

definition normalise :: "vec3 list \<Rightarrow> real \<Rightarrow> vec3 list" where
  "normalise points sz =
     (if length points = 0 then []
      else
        let box = setFromPoints points;
            maxDim = (if extent points = 0 then 1 else extent points);
            centre = getCenter box
        in map (\<lambda>p. multiplyScalar (sub p centre) (sz / maxDim)) points)"

subsection \<open>Pattern Generators\<close>

text \<open>
  \<^verbatim>\<open>torusKnot\<close>. The vertices of \<^verbatim>\<open>new THREE.TorusKnotGeometry(10, 3, 200, 16, 2, 3)\<close>
  are computed by three.js, not by this repository: the array \<^verbatim>\<open>points\<close> read from the
  position attribute is the parameter \<open>points\<close>. The second loop reads
  \<^verbatim>\<open>points[i % points.length]\<close>, which is \<^verbatim>\<open>undefined\<close> for an empty array, and
  \<^verbatim>\<open>.clone()\<close> on it raises.
\<close>

function torusKnot_loop :: "vec3 list \<Rightarrow> nat \<Rightarrow> nat \<Rightarrow> vec3 list \<Rightarrow> error + vec3 list" where
  "torusKnot_loop points n i result =
     (if i < n then
        (if length points = 0 then Inl TypeError
         else torusKnot_loop points n (i + 1) (result @ [points ! (i mod length points)]))
      else Inr result)"
  by pat_completeness auto
termination
  by (relation "measure (\<lambda>(points, n, i, result). n - i)") auto

declare torusKnot_loop.simps [simp del]

definition torusKnot :: "vec3 list \<Rightarrow> nat \<Rightarrow> error + vec3 list" where
  "torusKnot points n =
     (case torusKnot_loop points n 0 [] of
        Inl e \<Rightarrow> Inl e
      | Inr result \<Rightarrow> Inr (normalise result 50))"

text \<open>
  \<^verbatim>\<open>
  function halvorsen(n) {
      const pts = [];
      let x = 0.1, y = 0, z = 0;
      const a = 1.89;
      const dt = 0.005;
      for (let i = 0; i < n * 25; i++) {
          const dx = -a * x - 4 * y - 4 * z - y * y;
          const dy = -a * y - 4 * z - 4 * x - z * z;
          const dz = -a * z - 4 * x - 4 * y - x * x;
          x += dx * dt;  y += dy * dt;  z += dz * dt;
          if (i > 200 && i % 25 === 0) pts.push(new THREE.Vector3(x, y, z));
          if (pts.length >= n) break;
      }
      while (pts.length < n) pts.push(pts[Math.floor(Math.random() * pts.length)].clone());
      return normalise(pts, 60);
  }
  \<close>
\<close>

function halvorsen_loop :: "nat \<Rightarrow> nat \<Rightarrow> real \<Rightarrow> real \<Rightarrow> real \<Rightarrow> vec3 list \<Rightarrow> vec3 list" where
  "halvorsen_loop n i x y z pts =
     (if i < n * 25 then
        let a = 189 / 100;
            dt = 5 / 1000;
            dx = - a * x - 4 * y - 4 * z - y * y;
            dy = - a * y - 4 * z - 4 * x - z * z;
            dz = - a * z - 4 * x - 4 * y - x * x;
            x' = x + dx * dt;
            y' = y + dy * dt;
            z' = z + dz * dt;
            pts' = (if i > 200 \<and> i mod 25 = 0 then pts @ [Vector3 x' y' z'] else pts)
        in if length pts' \<ge> n then pts' else halvorsen_loop n (i + 1) x' y' z' pts'
      else pts)"
  by pat_completeness auto
termination
  by (relation "measure (\<lambda>(n, i, x, y, z, pts). n * 25 - i)") auto

declare halvorsen_loop.simps [simp del]

text \<open>
  The padding loop. \<open>k\<close> counts the calls of \<^verbatim>\<open>Math.random()\<close>. The index
  \<^verbatim>\<open>Math.floor(Math.random() * pts.length)\<close> is an integer; when no element is stored
  there, \<^verbatim>\<open>.clone()\<close> raises.
\<close>

function halvorsen_pad :: "(nat \<Rightarrow> real) \<Rightarrow> nat \<Rightarrow> nat \<Rightarrow> vec3 list \<Rightarrow> error + vec3 list" where
  "halvorsen_pad rnd k n pts =
     (if length pts < n then
        let j = \<lfloor>rnd k * real (length pts)\<rfloor>
        in if 0 \<le> j \<and> nat j < length pts
           then halvorsen_pad rnd (k + 1) n (pts @ [pts ! nat j])
           else Inl TypeError
      else Inr pts)"
  by pat_completeness auto
termination
  by (relation "measure (\<lambda>(rnd, k, n, pts). n - length pts)") auto

declare halvorsen_pad.simps [simp del]

definition halvorsen :: "(nat \<Rightarrow> real) \<Rightarrow> nat \<Rightarrow> error + vec3 list" where
  "halvorsen rnd n =
     (case halvorsen_pad rnd 0 n (halvorsen_loop n 0 (1 / 10) 0 0 []) of
        Inl e \<Rightarrow> Inl e
      | Inr pts \<Rightarrow> Inr (normalise pts 60))"

text \<open>
  \<^verbatim>\<open>
  function dualHelix(n) {
      const pts = [];
      const turns = 5;  const radius = 15;  const height = 40;
      for (let i = 0; i < n; i++) {
          const isSecondHelix = i % 2 === 0;
          const angle = (i / n) * Math.PI * 2 * turns;
          const y = (i / n) * height - height / 2;
          const r = radius + (isSecondHelix ? 5 : -5);
          const x = Math.cos(angle) * r;
          const z = Math.sin(angle) * r;
          pts.push(new THREE.Vector3(x, y, z));
      }
      return normalise(pts, 60);
  }
  \<close>
\<close>

function dualHelix_loop :: "nat \<Rightarrow> nat \<Rightarrow> vec3 list \<Rightarrow> vec3 list" where
  "dualHelix_loop n i pts =
     (if i < n then
        let turns = 5;
            radius = 15;
            height = 40;
            isSecondHelix = (i mod 2 = 0);
            angle = (real i / real n) * pi * 2 * turns;
            y = (real i / real n) * height - height / 2;
            r = radius + (if isSecondHelix then 5 else - 5);
            x = cos angle * r;
            z = sin angle * r
        in dualHelix_loop n (i + 1) (pts @ [Vector3 x y z])
      else pts)"
  by pat_completeness auto
termination
  by (relation "measure (\<lambda>(n, i, pts). n - i)") auto

declare dualHelix_loop.simps [simp del]

definition dualHelix :: "nat \<Rightarrow> vec3 list" where
  "dualHelix n = normalise (dualHelix_loop n 0 []) 60"

text \<open>
  \<^verbatim>\<open>
  function deJong(n) {
      const pts = [];
      let x = 0.1, y = 0.1;
      const a = 1.4, b = -2.3, c = 2.4, d = -2.1;
      for (let i = 0; i < n; i++) {
          const xn = Math.sin(a * y) - Math.cos(b * x);
          const yn = Math.sin(c * x) - Math.cos(d * y);
          x = xn;  y = yn;
          const z = Math.sin(x * y * 0.5);
          pts.push(new THREE.Vector3(x, y, z));
      }
      return normalise(pts, 55);
  }
  \<close>
\<close>

function deJong_loop :: "nat \<Rightarrow> nat \<Rightarrow> real \<Rightarrow> real \<Rightarrow> vec3 list \<Rightarrow> vec3 list" where
  "deJong_loop n i x y pts =
     (if i < n then
        let a = 14 / 10;
            b = - 23 / 10;
            c = 24 / 10;
            d = - 21 / 10;
            xn = sin (a * y) - cos (b * x);
            yn = sin (c * x) - cos (d * y);
            z = sin (xn * yn * (5 / 10))
        in deJong_loop n (i + 1) xn yn (pts @ [Vector3 xn yn z])
      else pts)"
  by pat_completeness auto
termination
  by (relation "measure (\<lambda>(n, i, x, y, pts). n - i)") auto

declare deJong_loop.simps [simp del]

definition deJong :: "nat \<Rightarrow> vec3 list" where
  "deJong n = normalise (deJong_loop n 0 (1 / 10) (1 / 10) []) 55"

text \<open>\<^verbatim>\<open>const PATTERNS = [torusKnot, halvorsen, dualHelix, deJong];\<close>\<close>

definition PATTERNS :: "vec3 list \<Rightarrow> (nat \<Rightarrow> real) \<Rightarrow> (nat \<Rightarrow> error + vec3 list) list" where
  "PATTERNS knot rnd = [torusKnot knot, halvorsen rnd, \<lambda>n. Inr (dualHelix n), \<lambda>n. Inr (deJong n)]"

definition PARTICLE_COUNT :: nat where
  "PARTICLE_COUNT = 15000"

definition SPARK_COUNT :: nat where
  "SPARK_COUNT = 2000"

subsection \<open>The particle buffers and the morph state\<close>

text \<open>
  The mutable state of the component: the refs \<^verbatim>\<open>isTrans\<close>, \<^verbatim>\<open>prog\<close> and
  \<^verbatim>\<open>userData = {from, to, next}\<close>, the React state \<^verbatim>\<open>currentPattern\<close> (its setter
  is modelled as taking effect at once), the position arrays of the particle and sparkle
  geometries, and what \<^verbatim>\<open>useFrame\<close> writes besides: the rotations of the two point
  clouds and the three \<^verbatim>\<open>time\<close> uniforms. The star positions are written once at
  creation and never read by the morphing engine; they are left out.
\<close>

record state =
  isTrans :: bool
  prog :: real
  currentPattern :: nat
  ud_from :: "cell list"
  ud_to :: "cell list"
  ud_next :: nat
  particleArr :: "cell list"
  sparkleArr :: "cell list"
  particles_rotation_x :: real
  particles_rotation_y :: real
  sparkles_rotation_x :: real
  sparkles_rotation_y :: real
  particles_time :: real
  sparkles_time :: real
  stars_time :: real

definition morphSpeed :: real where
  "morphSpeed = 3 / 100"

text \<open>
  The state when the component is created: \<^verbatim>\<open>new Float32Array(k)\<close> is \<open>k\<close> zeros,
  \<^verbatim>\<open>userData\<close> holds two empty arrays.
\<close>

definition init_state :: state where
  "init_state =
     \<lparr>isTrans = False, prog = 0, currentPattern = 0,
      ud_from = [], ud_to = [], ud_next = 0,
      particleArr = replicate (PARTICLE_COUNT * 3) (Some 0),
      sparkleArr = replicate (SPARK_COUNT * 3) (Some 0),
      particles_rotation_x = 0, particles_rotation_y = 0,
      sparkles_rotation_x = 0, sparkles_rotation_y = 0,
      particles_time = 0, sparkles_time = 0, stars_time = 0\<rparr>"

text \<open>
  A read of a typed array: \<^verbatim>\<open>undefined\<close> out of range, which arithmetic turns into
  \<^verbatim>\<open>NaN\<close>. A write out of range is ignored, as \<open>xs[i := v]\<close> does.
\<close>

definition rd :: "cell list \<Rightarrow> nat \<Rightarrow> cell" where
  "rd xs i = (if i < length xs then xs ! i else None)"

text \<open>\<^verbatim>\<open>pts[j] || new THREE.Vector3()\<close>\<close>

definition point_or_zero :: "vec3 list \<Rightarrow> nat \<Rightarrow> vec3" where
  "point_or_zero pts j = (if j < length pts then pts ! j else zero3)"

text \<open>
  \<^verbatim>\<open>
  const applyPattern = (i) => {
      const pts = PATTERNS[i](PARTICLE_COUNT);
      ...
      for (let j = 0; j < PARTICLE_COUNT; j++) {
          const idx = j * 3;
          const p = pts[j] || new THREE.Vector3();
          particleArr[idx] = p.x;  particleArr[idx + 1] = p.y;  particleArr[idx + 2] = p.z;
          if (j < SPARK_COUNT) {
              sparkleArr[idx] = p.x;  sparkleArr[idx + 1] = p.y;  sparkleArr[idx + 2] = p.z;
          }
      }
  };
  \<close>
\<close>

definition write3 :: "cell list \<Rightarrow> nat \<Rightarrow> vec3 \<Rightarrow> cell list" where
  "write3 arr idx p = arr[idx := Some (vx p), idx + 1 := Some (vy p), idx + 2 := Some (vz p)]"

function applyPattern_loop :: "vec3 list \<Rightarrow> nat \<Rightarrow> cell list \<times> cell list \<Rightarrow> cell list \<times> cell list" where
  "applyPattern_loop pts j (pArr, sArr) =
     (if j < PARTICLE_COUNT then
        let idx = j * 3;
            p = point_or_zero pts j;
            pArr' = write3 pArr idx p;
            sArr' = (if j < SPARK_COUNT then write3 sArr idx p else sArr)
        in applyPattern_loop pts (j + 1) (pArr', sArr')
      else (pArr, sArr))"
  by pat_completeness auto
termination
  by (relation "measure (\<lambda>(pts, j, arrs). PARTICLE_COUNT - j)") auto

declare applyPattern_loop.simps [simp del]

text \<open>
  The layout of a point set in a position array of item size 3, as the loops of
  \<^verbatim>\<open>applyPattern\<close> and \<^verbatim>\<open>triggerMorph\<close> write it: the coordinates of point \<open>j\<close> are
  the cells \<open>3j\<close>, \<open>3j + 1\<close>, \<open>3j + 2\<close>.
\<close>

definition coords :: "vec3 list \<Rightarrow> cell list" where
  "coords pts = concat (map (\<lambda>p. [Some (vx p), Some (vy p), Some (vz p)]) pts)"

text \<open>\<^verbatim>\<open>PATTERNS[i]\<close> is \<^verbatim>\<open>undefined\<close> for an index out of range, and calling it raises.\<close>

definition call_pattern :: "vec3 list \<Rightarrow> (nat \<Rightarrow> real) \<Rightarrow> nat \<Rightarrow> nat \<Rightarrow> error + vec3 list" where
  "call_pattern knot rnd i n =
     (if i < length (PATTERNS knot rnd) then (PATTERNS knot rnd ! i) n else Inl TypeError)"

definition applyPattern :: "vec3 list \<Rightarrow> (nat \<Rightarrow> real) \<Rightarrow> nat \<Rightarrow> state \<Rightarrow> error + state" where
  "applyPattern knot rnd i s =
     (case call_pattern knot rnd i PARTICLE_COUNT of
        Inl e \<Rightarrow> Inl e
      | Inr pts \<Rightarrow>
          let (particleArr', sparkleArr') = applyPattern_loop pts 0 (particleArr s, sparkleArr s)
          in Inr (s\<lparr>particleArr := particleArr', sparkleArr := sparkleArr'\<rparr>))"

text \<open>
  \<^verbatim>\<open>
  triggerMorph: () => {
      if (!isTrans.current && particlesRef.current) {
          isTrans.current = true;
          prog.current = 0;
          const next = (currentPattern + 1) % PATTERNS.length;
          const currentPositions = particlesRef.current.geometry.attributes.position.array;
          const fromPts = new Float32Array(currentPositions);
          const toPtsVec = PATTERNS[next](PARTICLE_COUNT);
          const to = new Float32Array(PARTICLE_COUNT * 3);
          for (let j = 0; j < PARTICLE_COUNT; j++) {
              const idx = j * 3;
              const p = toPtsVec[j] || new THREE.Vector3();
              to[idx] = p.x; to[idx + 1] = p.y; to[idx + 2] = p.z;
          }
          userData.current = { from: fromPts, to, next };
      }
  }
  \<close>
  The component is mounted, so \<^verbatim>\<open>particlesRef.current\<close> is set. When the generator
  raises, the two assignments before the call have happened: the result \<open>Inl (e, s')\<close>
  carries the state the exception leaves behind.
\<close>

function to_loop :: "vec3 list \<Rightarrow> nat \<Rightarrow> cell list \<Rightarrow> cell list" where
  "to_loop toPtsVec j to =
     (if j < PARTICLE_COUNT then
        let idx = j * 3;
            p = point_or_zero toPtsVec j
        in to_loop toPtsVec (j + 1) (write3 to idx p)
      else to)"
  by pat_completeness auto
termination
  by (relation "measure (\<lambda>(toPtsVec, j, to). PARTICLE_COUNT - j)") auto

declare to_loop.simps [simp del]

definition triggerMorph :: "vec3 list \<Rightarrow> (nat \<Rightarrow> real) \<Rightarrow> state \<Rightarrow> (error \<times> state) + state" where
  "triggerMorph knot rnd s =
     (if \<not> isTrans s then
        let s1 = s\<lparr>isTrans := True, prog := 0\<rparr>;
            next = (currentPattern s + 1) mod length (PATTERNS knot rnd);
            fromPts = particleArr s
        in case call_pattern knot rnd next PARTICLE_COUNT of
             Inl e \<Rightarrow> Inl (e, s1)
           | Inr toPtsVec \<Rightarrow>
               let to = to_loop toPtsVec 0 (replicate (PARTICLE_COUNT * 3) (Some 0))
               in Inr (s1\<lparr>ud_from := fromPts, ud_to := to, ud_next := next\<rparr>)
      else Inr s)"

text \<open>
  \<^verbatim>\<open>
  useFrame((state, delta) => {
      const t = state.clock.elapsedTime;
      if (particlesRef.current && sparklesRef.current) {
          (three time uniforms) = t;
          particlesRef.current.rotation.y += delta * 0.05;
          particlesRef.current.rotation.x += delta * 0.02;
          sparklesRef.current.rotation.y += delta * 0.05;
          sparklesRef.current.rotation.x += delta * 0.02;
          if (isTrans.current) {
              prog.current += morphSpeed;
              const p = prog.current;
              const eased = p >= 1 ? 1 : 1 - Math.pow(1 - p, 3);
              const { from, to, next } = userData.current;
              if (to) {
                  for (let i = 0; i < particleArr.length; i++) {
                      const val = from[i] + (to[i] - from[i]) * eased;
                      particleArr[i] = val;
                      if (i < sparkleArr.length) sparkleArr[i] = val;
                  }
              }
              if (p >= 1) { isTrans.current = false; setCurrentPattern(next); }
          }
      }
  });
  \<close>
  \<^verbatim>\<open>to\<close> is always an array, so \<^verbatim>\<open>if (to)\<close> is taken.
\<close>

definition eased :: "real \<Rightarrow> real" where
  "eased p = (if p \<ge> 1 then 1 else 1 - (1 - p) ^ 3)"

text \<open>\<^verbatim>\<open>from[i] + (to[i] - from[i]) * eased\<close>, \<^verbatim>\<open>NaN\<close> as soon as one read is.\<close>

definition lerp :: "cell \<Rightarrow> cell \<Rightarrow> real \<Rightarrow> cell" where
  "lerp f t e =
     (case f of None \<Rightarrow> None
      | Some a \<Rightarrow> (case t of None \<Rightarrow> None | Some b \<Rightarrow> Some (a + (b - a) * e)))"

function morph_loop :: "cell list \<Rightarrow> cell list \<Rightarrow> real \<Rightarrow> nat \<Rightarrow> cell list \<times> cell list \<Rightarrow> cell list \<times> cell list" where
  "morph_loop from to e i (pArr, sArr) =
     (if i < length pArr then
        let val = lerp (rd from i) (rd to i) e;
            pArr' = pArr[i := val];
            sArr' = (if i < length sArr then sArr[i := val] else sArr)
        in morph_loop from to e (i + 1) (pArr', sArr')
      else (pArr, sArr))"
  by pat_completeness auto
termination
  by (relation "measure (\<lambda>(from, to, e, i, arrs). length (fst arrs) - i)") auto

declare morph_loop.simps [simp del]

type_synonym frame = "real \<times> real"

definition useFrame :: "frame \<Rightarrow> state \<Rightarrow> state" where
  "useFrame fr s =
     (let t = fst fr;
          delta = snd fr;
          s1 = s\<lparr>particles_time := t, sparkles_time := t, stars_time := t,
                 particles_rotation_y := particles_rotation_y s + delta * (5 / 100),
                 particles_rotation_x := particles_rotation_x s + delta * (2 / 100),
                 sparkles_rotation_y := sparkles_rotation_y s + delta * (5 / 100),
                 sparkles_rotation_x := sparkles_rotation_x s + delta * (2 / 100)\<rparr>
      in if isTrans s1 then
           let p = prog s1 + morphSpeed;
               e = eased p;
               (particleArr', sparkleArr') =
                  morph_loop (ud_from s1) (ud_to s1) e 0 (particleArr s1, sparkleArr s1);
               s2 = s1\<lparr>prog := p, particleArr := particleArr', sparkleArr := sparkleArr'\<rparr>
           in if p \<ge> 1 then s2\<lparr>isTrans := False, currentPattern := ud_next s1\<rparr> else s2
         else s1)"

text \<open>A run of the render loop: one \<^verbatim>\<open>useFrame\<close> call per frame, in order.\<close>

definition ticks :: "frame list \<Rightarrow> state \<Rightarrow> state" where
  "ticks frs s = foldl (\<lambda>s fr. useFrame fr s) s frs"

text \<open>
  The states the component can be in: created, mounted (the effect that applies the
  initial pattern runs once), and then any sequence of triggers and frames.
  \<^verbatim>\<open>Math.random()\<close> answers in \<open>[0, 1)\<close>.
\<close>

definition random_ok :: "(nat \<Rightarrow> real) \<Rightarrow> bool" where
  "random_ok rnd = (\<forall>k. 0 \<le> rnd k \<and> rnd k < 1)"

inductive reachable :: "vec3 list \<Rightarrow> state \<Rightarrow> bool" for knot :: "vec3 list" where
  created: "reachable knot init_state"
| mounted: "random_ok rnd \<Longrightarrow> applyPattern knot rnd (currentPattern init_state) init_state = Inr s
     \<Longrightarrow> reachable knot s"
| triggered: "reachable knot s \<Longrightarrow> random_ok rnd \<Longrightarrow> triggerMorph knot rnd s = Inr s'
     \<Longrightarrow> reachable knot s'"
| trigger_raised: "reachable knot s \<Longrightarrow> random_ok rnd \<Longrightarrow> triggerMorph knot rnd s = Inl (e, s')
     \<Longrightarrow> reachable knot s'"
| frame: "reachable knot s \<Longrightarrow> reachable knot (useFrame fr s)"

subsection \<open>The arithmetic of the code\<close>

text \<open>
  IEEE-754 binary formats, rounding to nearest with ties to even. A format has a precision
  of \<open>p\<close> bits and a smallest quantum \<open>2 ^ qmin\<close> (that of the subnormal numbers). A real
  \<open>x \<noteq> 0\<close> with \<open>2 ^ e \<le> \<bar>x\<bar> < 2 ^ (e + 1)\<close> is rounded to the nearest integer multiple of
  the quantum \<open>2 ^ max (e - (p - 1)) qmin\<close>. Double precision is \<open>p = 53\<close>, \<open>qmin = -1074\<close>;
  single precision is \<open>p = 24\<close>, \<open>qmin = -149\<close>. Overflow to an infinity is not modelled:
  the functions describe the operations whose rounded result is finite, and the values
  below are far from either bound.
\<close>

definition pow2 :: "int \<Rightarrow> real" where
  "pow2 k = (if 0 \<le> k then 2 ^ nat k else 1 / 2 ^ nat (- k))"

text \<open>The nearest integer, the even one of the two when they are equally near.\<close>

definition rne :: "real \<Rightarrow> int" where
  "rne x =
     (let n = \<lfloor>x\<rfloor>; d = x - of_int n
      in if d < 1 / 2 then n else if 1 / 2 < d then n + 1 else if even n then n else n + 1)"

definition exponent :: "real \<Rightarrow> int" where
  "exponent x = \<lfloor>log 2 \<bar>x\<bar>\<rfloor>"

definition round_binary :: "int \<Rightarrow> int \<Rightarrow> real \<Rightarrow> real" where
  "round_binary p qmin x =
     (if x = 0 then 0
      else let q = max (exponent x - (p - 1)) qmin
           in of_int (rne (x / pow2 q)) * pow2 q)"

text \<open>The result of an arithmetic operation on \<^verbatim>\<open>number\<close>s, given its exact value.\<close>

definition fl64 :: "real \<Rightarrow> real" where
  "fl64 x = round_binary 53 (- 1074) x"

text \<open>\<^verbatim>\<open>Math.fround\<close>, the conversion a store into a \<^verbatim>\<open>Float32Array\<close> applies.\<close>

definition fround :: "real \<Rightarrow> real" where
  "fround x = round_binary 24 (- 149) x"

definition Float32_store :: "cell \<Rightarrow> cell" where
  "Float32_store v = map_option fround v"

text \<open>
  The loop of \<^verbatim>\<open>useFrame\<close> once more, in the arithmetic of the code:
  \<^verbatim>\<open>const val = from[i] + (to[i] - from[i]) * eased;\<close> is a subtraction, a multiplication
  and an addition of doubles (a read of a \<^verbatim>\<open>Float32Array\<close> cell is exact), and
  \<^verbatim>\<open>particleArr[i] = val; sparkleArr[i] = val;\<close> store into \<^verbatim>\<open>Float32Array\<close>s.
\<close>

definition lerp_ieee :: "cell \<Rightarrow> cell \<Rightarrow> real \<Rightarrow> cell" where
  "lerp_ieee f t e =
     (case f of None \<Rightarrow> None
      | Some a \<Rightarrow>
          (case t of None \<Rightarrow> None | Some b \<Rightarrow> Some (fl64 (a + fl64 (fl64 (b - a) * e)))))"

function morph_loop_ieee :: "cell list \<Rightarrow> cell list \<Rightarrow> real \<Rightarrow> nat \<Rightarrow> cell list \<times> cell list \<Rightarrow> cell list \<times> cell list" where
  "morph_loop_ieee from to e i (pArr, sArr) =
     (if i < length pArr then
        let val = lerp_ieee (rd from i) (rd to i) e;
            pArr' = pArr[i := Float32_store val];
            sArr' = (if i < length sArr then sArr[i := Float32_store val] else sArr)
        in morph_loop_ieee from to e (i + 1) (pArr', sArr')
      else (pArr, sArr))"
  by pat_completeness auto
termination
  by (relation "measure (\<lambda>(from, to, e, i, arrs). length (fst arrs) - i)") auto

declare morph_loop_ieee.simps [simp del]

text \<open>
  The loop of \<^verbatim>\<open>triggerMorph\<close> that fills \<^verbatim>\<open>to\<close>, a \<^verbatim>\<open>Float32Array\<close>, once more:
  \<^verbatim>\<open>to[idx] = p.x; to[idx + 1] = p.y; to[idx + 2] = p.z;\<close> round each coordinate to single
  precision.
\<close>

definition write3_Float32 :: "cell list \<Rightarrow> nat \<Rightarrow> vec3 \<Rightarrow> cell list" where
  "write3_Float32 arr idx p =
     arr[idx := Float32_store (Some (vx p)), idx + 1 := Float32_store (Some (vy p)),
         idx + 2 := Float32_store (Some (vz p))]"

function to_loop_Float32 :: "vec3 list \<Rightarrow> nat \<Rightarrow> cell list \<Rightarrow> cell list" where
  "to_loop_Float32 toPtsVec j to =
     (if j < PARTICLE_COUNT then
        let idx = j * 3;
            p = point_or_zero toPtsVec j
        in to_loop_Float32 toPtsVec (j + 1) (write3_Float32 to idx p)
      else to)"
  by pat_completeness auto
termination
  by (relation "measure (\<lambda>(toPtsVec, j, to). PARTICLE_COUNT - j)") auto

declare to_loop_Float32.simps [simp del]

text \<open>A point with each coordinate rounded to single precision.\<close>

definition fround3 :: "vec3 \<Rightarrow> vec3" where
  "fround3 p = Vector3 (fround (vx p)) (fround (vy p)) (fround (vz p))"

section \<open>Properties\<close>

text \<open>C10: the Normalizer applied to the empty point set returns the empty point set; the
  guard on the length comes first, no bounding box is computed and nothing is raised.\<close>

theorem normalise_empty: "normalise [] sz = []"
  by (simp add: normalise_def)

subsection \<open>How many points the generators return\<close>

text \<open>
  The integration loop of \<^verbatim>\<open>halvorsen\<close> pushes at the indices \<open>225, 250, \<dots>\<close> below
  \<open>25 n\<close>. Before iteration \<open>i\<close> the number \<open>L\<close> of collected points satisfies
  \<open>L = 0 \<and> i \<le> 200\<close> or \<open>25 (L + 8) < i \<le> 25 (L + 9)\<close>; the loop therefore ends with
  \<open>n - 9\<close> points (none for \<open>n \<le> 9\<close>) and never leaves through \<^verbatim>\<open>break\<close>.
\<close>

lemma push_step:
  fixes L i :: nat
  assumes "(L = 0 \<and> i \<le> 200) \<or> (25 * (L + 8) < i \<and> i \<le> 25 * (L + 9))"
    and "200 < i" and "i mod 25 = 0"
  shows "25 * (Suc L + 8) < Suc i \<and> Suc i \<le> 25 * (Suc L + 9)"
proof -
  from assms(3) obtain q where q: "i = 25 * q" by auto
  from assms(1,2) have "25 * (L + 8) < i" "i \<le> 25 * (L + 9)" by auto
  with q have "q = L + 9" by simp
  with q show ?thesis by simp
qed

lemma skip_step:
  fixes L i :: nat
  assumes "(L = 0 \<and> i \<le> 200) \<or> (25 * (L + 8) < i \<and> i \<le> 25 * (L + 9))"
    and "\<not> (200 < i \<and> i mod 25 = 0)"
  shows "(L = 0 \<and> Suc i \<le> 200) \<or> (25 * (L + 8) < Suc i \<and> Suc i \<le> 25 * (L + 9))"
proof (cases "i \<le> 200")
  case True
  with assms(1) have "L = 0" by auto
  with True show ?thesis by auto
next
  case False
  with assms have nz: "i mod 25 \<noteq> 0" and b: "25 * (L + 8) < i" "i \<le> 25 * (L + 9)" by auto
  from nz have "i \<noteq> 25 * (L + 9)" by auto
  with b show ?thesis by simp
qed

lemma at_end:
  fixes L n :: nat
  assumes "(L = 0 \<and> n * 25 \<le> 200) \<or> (25 * (L + 8) < n * 25 \<and> n * 25 \<le> 25 * (L + 9))"
  shows "L = n - 9"
  using assms by auto

lemma below_n:
  fixes L i n :: nat
  assumes "(L = 0 \<and> i \<le> 200) \<or> (25 * (L + 8) < i \<and> i \<le> 25 * (L + 9))"
    and "i \<le> n * 25" and "0 < n"
  shows "L < n"
  using assms by auto


lemma halvorsen_loop_length:
  assumes "i \<le> n * 25"
    and "(length pts = 0 \<and> i \<le> 200) \<or> (25 * (length pts + 8) < i \<and> i \<le> 25 * (length pts + 9))"
  shows "length (halvorsen_loop n i x y z pts) = n - 9"
  using assms
proof (induction n i x y z pts rule: halvorsen_loop.induct)
  case (1 n i x y z pts)
  show ?case
  proof (cases "i < n * 25")
    case False
    have "halvorsen_loop n i x y z pts = pts"
      by (subst halvorsen_loop.simps) (simp add: False)
    moreover from "1.prems" False have "i = n * 25" by simp
    ultimately show ?thesis using at_end[of "length pts" n] "1.prems"(2) by simp
  next
    case True
    define x' where "x' = x + (- (189 / 100) * x - 4 * y - 4 * z - y * y) * (5 / 1000)"
    define y' where "y' = y + (- (189 / 100) * y - 4 * z - 4 * x - z * z) * (5 / 1000)"
    define z' where "z' = z + (- (189 / 100) * z - 4 * x - 4 * y - x * x) * (5 / 1000)"
    define pts' where "pts' = (if i > 200 \<and> i mod 25 = 0 then pts @ [Vector3 x' y' z'] else pts)"
    have inv': "(length pts' = 0 \<and> i + 1 \<le> 200) \<or>
                (25 * (length pts' + 8) < i + 1 \<and> i + 1 \<le> 25 * (length pts' + 9))"
    proof (cases "i > 200 \<and> i mod 25 = 0")
      case True
      then have "length pts' = Suc (length pts)" by (simp add: pts'_def)
      moreover from True have "200 < i" "i mod 25 = 0" by simp_all
      note push_step[OF "1.prems"(2) this]
      ultimately show ?thesis by simp
    next
      case False
      then have "pts' = pts" by (simp add: pts'_def)
      with skip_step[OF "1.prems"(2) False] show ?thesis by simp
    qed
    from True have "0 < n" "i + 1 \<le> n * 25" by auto
    with inv' have nobreak: "\<not> n \<le> length pts'"
      using below_n[of "length pts'" "i + 1" n] by simp
    have step: "halvorsen_loop n i x y z pts = halvorsen_loop n (i + 1) x' y' z' pts'"
      unfolding halvorsen_loop.simps[of n i x y z pts] Let_def
        x'_def[symmetric] y'_def[symmetric] z'_def[symmetric] pts'_def[symmetric]
      using True nobreak by simp
    note IH = "1.IH"[OF True refl refl refl refl refl refl refl refl refl,
        folded x'_def y'_def z'_def, folded pts'_def]
    have "length (halvorsen_loop n (i + 1) x' y' z' pts') = n - 9"
      by (rule IH[OF nobreak \<open>i + 1 \<le> n * 25\<close> inv'])
    with step show ?thesis by simp
  qed
qed

lemma halvorsen_loop_start: "length (halvorsen_loop n 0 x y z []) = n - 9"
  by (rule halvorsen_loop_length) simp_all

lemma normalise_length: "length (normalise points sz) = length points"
  by (simp add: normalise_def Let_def)

lemma halvorsen_pad_empty: "0 < n \<Longrightarrow> halvorsen_pad rnd k n [] = Inl TypeError"
  by (subst halvorsen_pad.simps) simp

lemma random_index:
  assumes "0 \<le> r" "r < 1" "0 < (m::nat)"
  shows "0 \<le> \<lfloor>r * real m\<rfloor> \<and> nat \<lfloor>r * real m\<rfloor> < m"
proof -
  have "0 \<le> r * real m" using assms by simp
  moreover have "r * real m < real m" using assms by simp
  ultimately show ?thesis by (simp add: floor_less_iff nat_less_iff)
qed

lemma halvorsen_pad_ok:
  assumes "random_ok rnd" "pts \<noteq> []"
  shows "\<exists>pts'. halvorsen_pad rnd k n pts = Inr pts' \<and> length pts' = max n (length pts)"
  using assms
proof (induction rnd k n pts rule: halvorsen_pad.induct)
  case (1 rnd k n pts)
  show ?case
  proof (cases "length pts < n")
    case False
    then show ?thesis by (subst halvorsen_pad.simps) simp
  next
    case True
    define j where "j = \<lfloor>rnd k * real (length pts)\<rfloor>"
    from "1.prems" have idx: "0 \<le> j \<and> nat j < length pts"
      unfolding j_def by (intro random_index) (simp_all add: random_ok_def)
    have step: "halvorsen_pad rnd k n pts = halvorsen_pad rnd (k + 1) n (pts @ [pts ! nat j])"
      unfolding halvorsen_pad.simps[of rnd k n pts] Let_def j_def[symmetric]
      using True idx by simp
    from "1.IH"[OF True refl, folded j_def, OF idx "1.prems"(1)]
    obtain pts' where "halvorsen_pad rnd (k + 1) n (pts @ [pts ! nat j]) = Inr pts'"
      "length pts' = max n (length (pts @ [pts ! nat j]))" by auto
    with step True show ?thesis by auto
  qed
qed

lemma halvorsen_raises: "0 < n \<Longrightarrow> n \<le> 9 \<Longrightarrow> halvorsen rnd n = Inl TypeError"
proof -
  assume n: "0 < n" "n \<le> 9"
  have "length (halvorsen_loop n 0 (1 / 10) 0 0 []) = 0"
    using n by (simp add: halvorsen_loop_start)
  then show ?thesis using n by (simp add: halvorsen_def halvorsen_pad_empty)
qed

lemma halvorsen_returns:
  assumes "random_ok rnd" "10 \<le> n"
  shows "\<exists>pts. halvorsen rnd n = Inr pts \<and> length pts = n"
proof -
  have "length (halvorsen_loop n 0 (1 / 10) 0 0 []) = n - 9"
    by (rule halvorsen_loop_start)
  with assms(2) have ne: "halvorsen_loop n 0 (1 / 10) 0 0 [] \<noteq> []"
    and le: "length (halvorsen_loop n 0 (1 / 10) 0 0 []) \<le> n" by auto
  from halvorsen_pad_ok[OF assms(1) ne, of 0 n] le
  show ?thesis by (auto simp: halvorsen_def normalise_length)
qed

lemma torusKnot_loop_ok:
  "points \<noteq> [] \<Longrightarrow> \<exists>r. torusKnot_loop points n i result = Inr r \<and> length r = length result + (n - i)"
proof (induction points n i result rule: torusKnot_loop.induct)
  case (1 points n i result)
  show ?case
  proof (cases "i < n")
    case False
    then show ?thesis by (subst torusKnot_loop.simps) simp
  next
    case True
    with "1.prems" have ne: "length points \<noteq> 0" by simp
    from "1.IH"[OF True ne "1.prems"] True ne show ?thesis
      by (subst torusKnot_loop.simps) auto
  qed
qed

lemma torusKnot_loop_empty: "0 < n \<Longrightarrow> torusKnot_loop [] n 0 result = Inl TypeError"
  by (subst torusKnot_loop.simps) simp

lemma torusKnot_returns:
  "points \<noteq> [] \<Longrightarrow> \<exists>pts. torusKnot points n = Inr pts \<and> length pts = n"
  using torusKnot_loop_ok[of points n 0 "[]"] by (auto simp: torusKnot_def normalise_length)

lemma dualHelix_loop_length: "length (dualHelix_loop n i pts) = length pts + (n - i)"
proof (induction n i pts rule: dualHelix_loop.induct)
  case (1 n i pts)
  show ?case
  proof (cases "i < n")
    case False
    then show ?thesis by (subst dualHelix_loop.simps) simp
  next
    case True
    from "1.IH"[OF True refl refl refl refl refl refl refl refl refl] True show ?thesis
      by (subst dualHelix_loop.simps) (simp add: Let_def)
  qed
qed

lemma dualHelix_length: "length (dualHelix n) = n"
  by (simp add: dualHelix_def normalise_length dualHelix_loop_length)

lemma deJong_loop_length: "length (deJong_loop n i x y pts) = length pts + (n - i)"
proof (induction n i x y pts rule: deJong_loop.induct)
  case (1 n i x y pts)
  show ?case
  proof (cases "i < n")
    case False
    then show ?thesis by (subst deJong_loop.simps) simp
  next
    case True
    from "1.IH"[OF True refl refl refl refl refl refl refl] True show ?thesis
      by (subst deJong_loop.simps) (simp add: Let_def)
  qed
qed

lemma deJong_length: "length (deJong n) = n"
  by (simp add: deJong_def normalise_length deJong_loop_length)

text \<open>C1: \<^verbatim>\<open>halvorsen(1)\<close>. The 25 iterations end before the warm-up bound
  \<^verbatim>\<open>i > 200\<close> is passed, nothing is collected, and the padding loop reads
  \<^verbatim>\<open>pts[0]\<close> of the empty array: the generator raises, whatever
  \<^verbatim>\<open>Math.random()\<close> answers.\<close>

theorem halvorsen_pads_from_nothing:
  "halvorsen_loop 1 0 (1 / 10) 0 0 [] = [] \<and> halvorsen rnd 1 = Inl TypeError"
  using halvorsen_loop_start[of 1 "1 / 10" 0 0] halvorsen_raises[of 1 rnd] by simp

text \<open>C4: \<^verbatim>\<open>halvorsen(9)\<close> returns no point set at all: it raises. (For \<open>N \<ge> 10\<close> it
  returns \<open>N\<close> points, \<open>halvorsen_returns\<close>; the other three generators return \<open>N\<close>
  points for every \<open>N\<close>: \<open>torusKnot_returns\<close>, \<open>dualHelix_length\<close>, \<open>deJong_length\<close>.)\<close>

theorem halvorsen_nine_raises: "halvorsen rnd 9 = Inl TypeError"
  by (rule halvorsen_raises) simp_all

subsection \<open>The bounding box of a point set\<close>

lemma Min_insert_min:
  fixes a b :: real
  assumes "finite S"
  shows "Min (insert (min a b) S) = Min (insert a (insert b S))"
  using assms by (cases "S = {}") (simp_all add: min.assoc)

lemma Max_insert_max:
  fixes a b :: real
  assumes "finite S"
  shows "Max (insert (max a b) S) = Max (insert a (insert b S))"
  using assms by (cases "S = {}") (simp_all add: max.assoc)

lemma foldl_expandByPoint:
  "foldl expandByPoint (Box3 lo hi) ps =
     Box3 (Vector3 (Min (insert (vx lo) (vx ` set ps))) (Min (insert (vy lo) (vy ` set ps)))
                   (Min (insert (vz lo) (vz ` set ps))))
          (Vector3 (Max (insert (vx hi) (vx ` set ps))) (Max (insert (vy hi) (vy ` set ps)))
                   (Max (insert (vz hi) (vz ` set ps))))"
proof (induction ps arbitrary: lo hi)
  case Nil
  show ?case by simp
next
  case (Cons p ps)
  show ?case
    by (simp add: Cons.IH vmin_def vmax_def Min_insert_min Max_insert_max)
qed

lemma setFromPoints_nonempty:
  assumes "ps \<noteq> []"
  shows "setFromPoints ps =
     Box3 (Vector3 (Min (vx ` set ps)) (Min (vy ` set ps)) (Min (vz ` set ps)))
          (Vector3 (Max (vx ` set ps)) (Max (vy ` set ps)) (Max (vz ` set ps)))"
proof -
  from assms obtain p qs where ps: "ps = p # qs" by (cases ps) auto
  show ?thesis
    unfolding ps setFromPoints_def by (simp add: foldl_expandByPoint)
qed

lemma setFromPoints_not_empty: "ps \<noteq> [] \<Longrightarrow> \<not> isEmpty (setFromPoints ps)"
proof -
  assume ne: "ps \<noteq> []"
  have "Min (f ` set ps) \<le> Max (f ` set ps)" for f :: "vec3 \<Rightarrow> real"
    using ne by (simp add: Min_le_iff)
  then show ?thesis
    by (simp add: setFromPoints_nonempty[OF ne] not_less)
qed

lemma Min_affine:
  fixes k c :: real
  assumes "0 \<le> k" "finite A" "A \<noteq> {}"
  shows "Min ((\<lambda>x. (x - c) * k) ` A) = (Min A - c) * k"
proof -
  have "mono (\<lambda>x. (x - c) * k)"
    using assms(1) by (intro monoI) (simp add: mult_right_mono)
  from mono_Min_commute[OF this assms(2,3)] show ?thesis by simp
qed

lemma Max_affine:
  fixes k c :: real
  assumes "0 \<le> k" "finite A" "A \<noteq> {}"
  shows "Max ((\<lambda>x. (x - c) * k) ` A) = (Max A - c) * k"
proof -
  have "mono (\<lambda>x. (x - c) * k)"
    using assms(1) by (intro monoI) (simp add: mult_right_mono)
  from mono_Max_commute[OF this assms(2,3)] show ?thesis by simp
qed

lemma setFromPoints_map:
  assumes "ps \<noteq> []" "0 \<le> k"
  shows "setFromPoints (map (\<lambda>p. multiplyScalar (sub p c) k) ps) =
     Box3 (multiplyScalar (sub (bmin (setFromPoints ps)) c) k)
          (multiplyScalar (sub (bmax (setFromPoints ps)) c) k)"
proof -
  let ?g = "\<lambda>p. multiplyScalar (sub p c) k"
  have ne: "map ?g ps \<noteq> []" using assms(1) by simp
  have X: "vx ` set (map ?g ps) = (\<lambda>x. (x - vx c) * k) ` (vx ` set ps)"
    by (simp add: image_image multiplyScalar_def sub_def)
  have Y: "vy ` set (map ?g ps) = (\<lambda>x. (x - vy c) * k) ` (vy ` set ps)"
    by (simp add: image_image multiplyScalar_def sub_def)
  have Z: "vz ` set (map ?g ps) = (\<lambda>x. (x - vz c) * k) ` (vz ` set ps)"
    by (simp add: image_image multiplyScalar_def sub_def)
  have fin: "finite (f ` set ps)" "f ` set ps \<noteq> {}" for f :: "vec3 \<Rightarrow> real"
    using assms(1) by simp_all
  show ?thesis
    unfolding setFromPoints_nonempty[OF ne] setFromPoints_nonempty[OF assms(1)] X Y Z
    by (simp add: Min_affine[OF assms(2) fin] Max_affine[OF assms(2) fin]
        multiplyScalar_def sub_def)
qed

lemma Math_max3: "Math_max [a, b, c] = max (max a b) c"
  by (simp add: Math_max_def)

lemma extent_eq:
  assumes "ps \<noteq> []"
  shows "extent ps = max (max (Max (vx ` set ps) - Min (vx ` set ps))
                              (Max (vy ` set ps) - Min (vy ` set ps)))
                         (Max (vz ` set ps) - Min (vz ` set ps))"
  using setFromPoints_not_empty[OF assms]
  by (simp add: extent_def getSize_def toArray_def Math_max3 sub_def
      setFromPoints_nonempty[OF assms])

lemma extent_nonneg: "0 \<le> extent ps"
proof (cases "ps = []")
  case True
  then show ?thesis
    by (simp add: extent_def setFromPoints_def getSize_def zero3_def toArray_def Math_max3)
next
  case False
  have "Min (vx ` set ps) \<le> Max (vx ` set ps)"
    using False by (simp add: Min_le_iff)
  then show ?thesis by (simp add: extent_eq[OF False] le_max_iff_disj)
qed

lemma extent_map:
  assumes "ps \<noteq> []" "0 \<le> k"
  shows "extent (map (\<lambda>p. multiplyScalar (sub p c) k) ps) = extent ps * k"
proof -
  let ?g = "\<lambda>p. multiplyScalar (sub p c) k"
  have ne: "map ?g ps \<noteq> []" using assms(1) by simp
  have "getSize (setFromPoints (map ?g ps)) = multiplyScalar (getSize (setFromPoints ps)) k"
    using setFromPoints_not_empty[OF ne] setFromPoints_not_empty[OF assms(1)]
    unfolding getSize_def setFromPoints_map[OF assms]
    by (simp add: multiplyScalar_def sub_def algebra_simps)
  then show ?thesis
    using assms(2)
    by (simp add: extent_def toArray_def Math_max3 multiplyScalar_def max_mult_distrib_right)
qed


lemma normalise_map:
  assumes "ps \<noteq> []"
  shows "normalise ps sz =
     map (\<lambda>p. multiplyScalar (sub p (getCenter (setFromPoints ps)))
                 (sz / (if extent ps = 0 then 1 else extent ps))) ps"
  using assms by (simp add: normalise_def Let_def)

lemma extent_zero_centre:
  assumes "ps \<noteq> []" "extent ps = 0" "p \<in> set ps"
  shows "sub p (getCenter (setFromPoints ps)) = zero3"
proof -
  have coord: "f p = (Min (f ` set ps) + Max (f ` set ps)) / 2"
    if "Max (f ` set ps) - Min (f ` set ps) \<le> 0" for f :: "vec3 \<Rightarrow> real"
  proof -
    have "Min (f ` set ps) \<le> f p" "f p \<le> Max (f ` set ps)"
      using assms(3) by simp_all
    with that show ?thesis by simp
  qed
  from assms(2) have
    "Max (vx ` set ps) - Min (vx ` set ps) \<le> 0"
    "Max (vy ` set ps) - Min (vy ` set ps) \<le> 0"
    "Max (vz ` set ps) - Min (vz ` set ps) \<le> 0"
    unfolding extent_eq[OF assms(1)] by simp_all
  then have "vx p = (Min (vx ` set ps) + Max (vx ` set ps)) / 2"
    "vy p = (Min (vy ` set ps) + Max (vy ` set ps)) / 2"
    "vz p = (Min (vz ` set ps) + Max (vz ` set ps)) / 2"
    using coord[of vx] coord[of vy] coord[of vz] by blast+
  then show ?thesis
    using setFromPoints_not_empty[OF assms(1)]
    by (simp add: getCenter_def setFromPoints_nonempty[OF assms(1)] sub_def zero3_def
        multiplyScalar_def addVectors_def)
qed

lemma extent_normalise:
  assumes "ps \<noteq> []" "0 \<le> sz"
  shows "extent (normalise ps sz) = (if extent ps = 0 then 0 else sz)"
proof -
  have "0 \<le> sz / (if extent ps = 0 then 1 else extent ps)"
    using assms(2) extent_nonneg[of ps] by simp
  from extent_map[OF assms(1) this] show ?thesis
    by (simp add: normalise_map[OF assms(1)])
qed


text \<open>C7: for a non-empty point set and a positive target size, the bounding box of the
  Normalizer's output has maximum dimension equal to the target size whenever the input's
  extent is not zero (exactly, in real arithmetic); and a single point repeated is mapped to
  the zero vector repeated, the \<^verbatim>\<open>|| 1\<close> fallback standing in for the zero extent.
  \<open>extent\<close> is the maximum dimension as the code computes it (\<open>extent_eq\<close> spells it out
  as the largest of the three coordinate ranges).\<close>

theorem normalise_extent:
  assumes "points \<noteq> []" "0 < sz"
  shows "(extent points \<noteq> 0 \<longrightarrow> extent (normalise points sz) = sz) \<and>
         normalise (replicate n p) sz = replicate n zero3"
proof
  from assms show "extent points \<noteq> 0 \<longrightarrow> extent (normalise points sz) = sz"
    by (simp add: extent_normalise)
next
  show "normalise (replicate n p) sz = replicate n zero3"
  proof (cases "n = 0")
    case True
    then show ?thesis by (simp add: normalise_def)
  next
    case False
    then have ne: "replicate n p \<noteq> []" by simp
    have s: "set (replicate n p) = {p}" using False by simp
    have e: "extent (replicate n p) = 0"
      by (simp add: extent_eq[OF ne] s)
    have "sub q (getCenter (setFromPoints (replicate n p))) = zero3" if "q \<in> set (replicate n p)" for q
      using extent_zero_centre[OF ne e that] .
    then have "sub p (getCenter (setFromPoints (replicate n p))) = zero3"
      using s by simp
    then show ?thesis
      by (simp add: normalise_map[OF ne] multiplyScalar_def zero3_def)
  qed
qed




text \<open>The theorem at a two-point set of extent 4 and at a point repeated three times.\<close>

theorem normalise_extent_witness:
  "[Vector3 0 0 0, Vector3 2 4 0] \<noteq> [] \<and> (0::real) < 60 \<and>
   extent [Vector3 0 0 0, Vector3 2 4 0] \<noteq> 0 \<and>
   extent (normalise [Vector3 0 0 0, Vector3 2 4 0] 60) = 60 \<and>
   normalise (replicate 3 (Vector3 1 2 3)) 60 = replicate 3 zero3"
proof -
  have e: "extent [Vector3 0 0 0, Vector3 2 4 0] = 4"
    by (simp add: extent_def setFromPoints_def getSize_def toArray_def Math_max_def
        vmin_def vmax_def sub_def)
  with normalise_extent[of "[Vector3 0 0 0, Vector3 2 4 0]" 60 3 "Vector3 1 2 3"]
  show ?thesis by simp
qed

subsection \<open>The loops over the position arrays\<close>

lemma length_write3: "length (write3 arr idx p) = length arr"
  by (simp add: write3_def)

lemma length_coords: "length (coords pts) = 3 * length pts"
  by (induction pts) (simp_all add: coords_def)

lemma coords_append: "coords (ps @ qs) = coords ps @ coords qs"
  by (simp add: coords_def)

lemma coords_Cons: "coords (p # ps) = Some (vx p) # Some (vy p) # Some (vz p) # coords ps"
  by (simp add: coords_def)

lemma coords_Nil: "coords [] = []"
  by (simp add: coords_def)

lemma take_write3:
  assumes "idx + 3 \<le> length arr"
  shows "take (idx + 3) (write3 arr idx p) = take idx arr @ coords [p]"
proof (rule nth_equalityI)
  show "length (take (idx + 3) (write3 arr idx p)) = length (take idx arr @ coords [p])"
    using assms by (simp add: length_write3 length_coords)
next
  fix k assume "k < length (take (idx + 3) (write3 arr idx p))"
  then have k: "k < idx + 3" by simp
  consider "k < idx" | "k = idx" | "k = idx + 1" | "k = idx + 2" using k by linarith
  then show "take (idx + 3) (write3 arr idx p) ! k = (take idx arr @ coords [p]) ! k"
    using assms by cases (simp_all add: write3_def nth_append coords_Cons coords_Nil)
qed

lemma take_write3_below:
  "j \<le> idx \<Longrightarrow> take j (write3 arr idx p) = take j arr"
  by (simp add: write3_def)

lemma to_loop_eq:
  assumes "length to = PARTICLE_COUNT * 3" "j \<le> PARTICLE_COUNT"
  shows "to_loop pts j to = take (j * 3) to @ coords (map (point_or_zero pts) [j..<PARTICLE_COUNT])"
  using assms
proof (induction pts j to rule: to_loop.induct)
  case (1 pts j to)
  show ?case
  proof (cases "j < PARTICLE_COUNT")
    case False
    with "1.prems" have "j = PARTICLE_COUNT" by simp
    with "1.prems" show ?thesis
      by (subst to_loop.simps) (simp add: coords_Nil)
  next
    case True
    let ?p = "point_or_zero pts j"
    let ?to = "write3 to (j * 3) ?p"
    have step: "to_loop pts j to = to_loop pts (j + 1) ?to"
      using True by (subst to_loop.simps) (simp add: Let_def)
    have len: "length ?to = PARTICLE_COUNT * 3" using "1.prems" by (simp add: length_write3)
    from True have j1: "j + 1 \<le> PARTICLE_COUNT" by simp
    have fits: "j * 3 + 3 \<le> length to" using True "1.prems"(1) by simp
    have "to_loop pts (j + 1) ?to =
          take ((j + 1) * 3) ?to @ coords (map (point_or_zero pts) [j + 1..<PARTICLE_COUNT])"
      by (rule "1.IH"[OF True refl refl len j1])
    also have "take ((j + 1) * 3) ?to = take (j * 3) to @ coords [?p]"
      using take_write3[OF fits, of ?p] by (simp add: add.commute)
    also have "(take (j * 3) to @ coords [?p]) @ coords (map (point_or_zero pts) [j + 1..<PARTICLE_COUNT])
               = take (j * 3) to @ coords (map (point_or_zero pts) [j..<PARTICLE_COUNT])"
      using True by (simp add: upt_conv_Cons coords_Cons coords_Nil)
    finally show ?thesis using step by simp
  qed
qed

lemma map_point_or_zero:
  "n \<le> length pts \<Longrightarrow> map (point_or_zero pts) [0..<n] = take n pts"
  by (rule nth_equalityI) (simp_all add: point_or_zero_def)

lemma to_loop_coords:
  assumes "length pts = PARTICLE_COUNT"
  shows "to_loop pts 0 (replicate (PARTICLE_COUNT * 3) (Some 0)) = coords pts"
  using to_loop_eq[of "replicate (PARTICLE_COUNT * 3) (Some 0)" 0 pts] assms
  by (simp add: map_point_or_zero)

lemma applyPattern_loop_fst:
  assumes "length pa = PARTICLE_COUNT * 3" "j \<le> PARTICLE_COUNT"
  shows "fst (applyPattern_loop pts j (pa, sa)) =
         take (j * 3) pa @ coords (map (point_or_zero pts) [j..<PARTICLE_COUNT])"
  using assms
proof (induction pts j "(pa, sa)" arbitrary: pa sa rule: applyPattern_loop.induct)
  case (1 pts j pa sa)
  show ?case
  proof (cases "j < PARTICLE_COUNT")
    case False
    with "1.prems" have "j = PARTICLE_COUNT" by simp
    with "1.prems" show ?thesis
      by (subst applyPattern_loop.simps) (simp add: coords_Nil)
  next
    case True
    let ?p = "point_or_zero pts j"
    let ?pa = "write3 pa (j * 3) ?p"
    let ?sa = "if j < SPARK_COUNT then write3 sa (j * 3) ?p else sa"
    have step: "applyPattern_loop pts j (pa, sa) = applyPattern_loop pts (j + 1) (?pa, ?sa)"
      using True by (subst applyPattern_loop.simps) (simp add: Let_def)
    have len: "length ?pa = PARTICLE_COUNT * 3" using "1.prems" by (simp add: length_write3)
    from True have j1: "j + 1 \<le> PARTICLE_COUNT" by simp
    have fits: "j * 3 + 3 \<le> length pa" using True "1.prems"(1) by simp
    have "fst (applyPattern_loop pts (j + 1) (?pa, ?sa)) =
          take ((j + 1) * 3) ?pa @ coords (map (point_or_zero pts) [j + 1..<PARTICLE_COUNT])"
      by (rule "1.hyps"[OF True refl refl refl refl len j1])
    also have "take ((j + 1) * 3) ?pa = take (j * 3) pa @ coords [?p]"
      using take_write3[OF fits, of ?p] by (simp add: add.commute)
    also have "(take (j * 3) pa @ coords [?p]) @ coords (map (point_or_zero pts) [j + 1..<PARTICLE_COUNT])
               = take (j * 3) pa @ coords (map (point_or_zero pts) [j..<PARTICLE_COUNT])"
      using True by (simp add: upt_conv_Cons coords_Cons coords_Nil)
    finally show ?thesis using step by simp
  qed
qed

lemma applyPattern_loop_snd:
  assumes "length sa = SPARK_COUNT * 3"
  shows "snd (applyPattern_loop pts j (pa, sa)) =
         take (j * 3) sa @ coords (map (point_or_zero pts) [j..<SPARK_COUNT])"
  using assms
proof (induction pts j "(pa, sa)" arbitrary: pa sa rule: applyPattern_loop.induct)
  case (1 pts j pa sa)
  show ?case
  proof (cases "j < PARTICLE_COUNT")
    case False
    then have "SPARK_COUNT \<le> j" by (simp add: SPARK_COUNT_def PARTICLE_COUNT_def)
    with "1.prems" False show ?thesis
      by (subst applyPattern_loop.simps) (simp add: coords_Nil)
  next
    case True
    let ?p = "point_or_zero pts j"
    let ?pa = "write3 pa (j * 3) ?p"
    let ?sa = "if j < SPARK_COUNT then write3 sa (j * 3) ?p else sa"
    have step: "applyPattern_loop pts j (pa, sa) = applyPattern_loop pts (j + 1) (?pa, ?sa)"
      using True by (subst applyPattern_loop.simps) (simp add: Let_def)
    have len: "length ?sa = SPARK_COUNT * 3" using "1.prems" by (simp add: length_write3)
    have IH: "snd (applyPattern_loop pts (j + 1) (?pa, ?sa)) =
          take ((j + 1) * 3) ?sa @ coords (map (point_or_zero pts) [j + 1..<SPARK_COUNT])"
      by (rule "1.hyps"[OF True refl refl refl refl len])
    show ?thesis
    proof (cases "j < SPARK_COUNT")
      case inside: True
      have fits: "j * 3 + 3 \<le> length sa" using inside "1.prems"(1) by simp
      have "take ((j + 1) * 3) ?sa = take (j * 3) sa @ coords [?p]"
        using take_write3[OF fits, of ?p] inside by (simp add: add.commute)
      moreover have "(take (j * 3) sa @ coords [?p]) @ coords (map (point_or_zero pts) [j + 1..<SPARK_COUNT])
               = take (j * 3) sa @ coords (map (point_or_zero pts) [j..<SPARK_COUNT])"
        using inside by (simp add: upt_conv_Cons coords_Cons coords_Nil)
      ultimately show ?thesis using step IH by simp
    next
      case outside: False
      with "1.prems" show ?thesis using step IH by (simp add: coords_Nil)
    qed
  qed
qed

lemma take_coords: "take (k * 3) (coords ps) = coords (take k ps)"
proof (induction ps arbitrary: k)
  case Nil
  show ?case by (simp add: coords_Nil)
next
  case (Cons p ps)
  show ?case
  proof (cases k)
    case 0
    then show ?thesis by (simp add: coords_Nil)
  next
    case (Suc m)
    have "Suc m * 3 = Suc (Suc (Suc (m * 3)))" by simp
    then show ?thesis using Cons.IH[of m] Suc by (simp only: coords_Cons take_Suc_Cons)
  qed
qed

lemma applyPattern_loop_mirror:
  assumes "length pa = PARTICLE_COUNT * 3" "length sa = SPARK_COUNT * 3"
  shows "snd (applyPattern_loop pts 0 (pa, sa)) =
         take (SPARK_COUNT * 3) (fst (applyPattern_loop pts 0 (pa, sa)))"
proof -
  have "SPARK_COUNT \<le> PARTICLE_COUNT" by (simp add: SPARK_COUNT_def PARTICLE_COUNT_def)
  then have "take SPARK_COUNT (map (point_or_zero pts) [0..<PARTICLE_COUNT]) =
        map (point_or_zero pts) [0..<SPARK_COUNT]"
    by (simp add: take_map min_def)
  then show ?thesis
    using applyPattern_loop_fst[OF assms(1), of 0 pts sa] applyPattern_loop_snd[OF assms(2), of pts 0 pa]
    by (simp add: take_coords)
qed

lemma applyPattern_loop_lengths:
  assumes "length pa = PARTICLE_COUNT * 3" "length sa = SPARK_COUNT * 3"
  shows "length (fst (applyPattern_loop pts 0 (pa, sa))) = PARTICLE_COUNT * 3"
    and "length (snd (applyPattern_loop pts 0 (pa, sa))) = SPARK_COUNT * 3"
  using applyPattern_loop_fst[OF assms(1), of 0 pts sa] applyPattern_loop_snd[OF assms(2), of pts 0 pa]
  by (simp_all add: length_coords)

lemma morph_loop_fst:
  assumes "i \<le> length pa"
  shows "fst (morph_loop src dst e i (pa, sa)) =
         take i pa @ map (\<lambda>j. lerp (rd src j) (rd dst j) e) [i..<length pa]"
  using assms
proof (induction src dst e i "(pa, sa)" arbitrary: pa sa rule: morph_loop.induct)
  case (1 src dst e i pa sa)
  show ?case
  proof (cases "i < length pa")
    case False
    with "1.prems" show ?thesis by (subst morph_loop.simps) simp
  next
    case True
    let ?v = "lerp (rd src i) (rd dst i) e"
    let ?pa = "pa[i := ?v]"
    let ?sa = "if i < length sa then sa[i := ?v] else sa"
    have step: "morph_loop src dst e i (pa, sa) = morph_loop src dst e (i + 1) (?pa, ?sa)"
      using True by (subst morph_loop.simps) (simp add: Let_def)
    have i1: "i + 1 \<le> length ?pa" using True by simp
    have "fst (morph_loop src dst e (i + 1) (?pa, ?sa)) =
          take (i + 1) ?pa @ map (\<lambda>j. lerp (rd src j) (rd dst j) e) [i + 1..<length ?pa]"
      by (rule "1.hyps"[OF True refl refl refl i1])
    also have "take (i + 1) ?pa = take i pa @ [?v]"
      using True by (simp add: take_Suc_conv_app_nth)
    finally show ?thesis using step True by (simp add: upt_conv_Cons)
  qed
qed

lemma morph_loop_snd:
  assumes "length sa \<le> length pa"
  shows "snd (morph_loop src dst e i (pa, sa)) =
         take i sa @ map (\<lambda>j. lerp (rd src j) (rd dst j) e) [i..<length sa]"
  using assms
proof (induction src dst e i "(pa, sa)" arbitrary: pa sa rule: morph_loop.induct)
  case (1 src dst e i pa sa)
  show ?case
  proof (cases "i < length pa")
    case False
    with "1.prems" show ?thesis by (subst morph_loop.simps) simp
  next
    case True
    let ?v = "lerp (rd src i) (rd dst i) e"
    let ?pa = "pa[i := ?v]"
    let ?sa = "if i < length sa then sa[i := ?v] else sa"
    have step: "morph_loop src dst e i (pa, sa) = morph_loop src dst e (i + 1) (?pa, ?sa)"
      using True by (subst morph_loop.simps) (simp add: Let_def)
    have len: "length ?sa \<le> length ?pa" using "1.prems" by simp
    have IH: "snd (morph_loop src dst e (i + 1) (?pa, ?sa)) =
          take (i + 1) ?sa @ map (\<lambda>j. lerp (rd src j) (rd dst j) e) [i + 1..<length ?sa]"
      by (rule "1.hyps"[OF True refl refl refl len])
    show ?thesis
    proof (cases "i < length sa")
      case inside: True
      then have "take (i + 1) ?sa = take i sa @ [?v]"
        by (simp add: take_Suc_conv_app_nth)
      with IH step inside show ?thesis by (simp add: upt_conv_Cons)
    next
      case outside: False
      with IH step show ?thesis by simp
    qed
  qed
qed

lemma morph_loop_result:
  assumes "length sa \<le> length pa"
  shows "morph_loop src dst e 0 (pa, sa) =
         (map (\<lambda>j. lerp (rd src j) (rd dst j) e) [0..<length pa],
          map (\<lambda>j. lerp (rd src j) (rd dst j) e) [0..<length sa])"
  using morph_loop_fst[of 0 pa src dst e sa] morph_loop_snd[OF assms, of src dst e 0]
  by (simp add: prod_eq_iff)

lemma lerp_end: "lerp (Some a) (Some b) 1 = Some b"
  by (simp add: lerp_def)

lemma morph_end:
  assumes "length src = n" "length dst = n" "None \<notin> set src" "None \<notin> set dst"
  shows "map (\<lambda>j. lerp (rd src j) (rd dst j) 1) [0..<n] = dst"
proof (rule nth_equalityI)
  show "length (map (\<lambda>j. lerp (rd src j) (rd dst j) 1) [0..<n]) = length dst"
    using assms by simp
next
  fix j assume "j < length (map (\<lambda>j. lerp (rd src j) (rd dst j) 1) [0..<n])"
  then have j: "j < n" by simp
  with assms have "src ! j \<noteq> None" "dst ! j \<noteq> None" by (metis nth_mem)+
  then obtain a b where "src ! j = Some a" "dst ! j = Some b" by auto
  with j assms show "map (\<lambda>j. lerp (rd src j) (rd dst j) 1) [0..<n] ! j = dst ! j"
    by (simp add: rd_def lerp_end)
qed

lemma morph_no_NaN:
  assumes "length src = n" "length dst = n" "None \<notin> set src" "None \<notin> set dst"
  shows "None \<notin> set (map (\<lambda>j. lerp (rd src j) (rd dst j) e) [0..<n])"
proof -
  have "lerp (rd src j) (rd dst j) e \<noteq> None" if "j < n" for j
  proof -
    from that assms have "src ! j \<noteq> None" "dst ! j \<noteq> None" by (metis nth_mem)+
    then obtain a b where "src ! j = Some a" "dst ! j = Some b" by auto
    with that assms show ?thesis by (simp add: rd_def lerp_def)
  qed
  then show ?thesis by (fastforce simp: image_iff)
qed

subsection \<open>Frames and triggers\<close>

lemma useFrame_idle:
  assumes "\<not> isTrans s"
  shows "isTrans (useFrame fr s) = False" "prog (useFrame fr s) = prog s"
    "currentPattern (useFrame fr s) = currentPattern s"
    "ud_from (useFrame fr s) = ud_from s" "ud_to (useFrame fr s) = ud_to s"
    "ud_next (useFrame fr s) = ud_next s"
    "particleArr (useFrame fr s) = particleArr s" "sparkleArr (useFrame fr s) = sparkleArr s"
  using assms by (simp_all add: useFrame_def Let_def)

lemma useFrame_prog:
  "isTrans s \<Longrightarrow> prog (useFrame fr s) = prog s + morphSpeed"
  by (simp add: useFrame_def Let_def split: prod.splits)

lemma useFrame_userData:
  "ud_from (useFrame fr s) = ud_from s" "ud_to (useFrame fr s) = ud_to s"
  "ud_next (useFrame fr s) = ud_next s"
  by (simp_all add: useFrame_def Let_def split: prod.splits)

lemma useFrame_isTrans:
  "isTrans s \<Longrightarrow> isTrans (useFrame fr s) = (prog s + morphSpeed < 1)"
  by (auto simp add: useFrame_def Let_def split: prod.splits)

lemma useFrame_currentPattern:
  "isTrans s \<Longrightarrow> currentPattern (useFrame fr s) =
     (if prog s + morphSpeed \<ge> 1 then ud_next s else currentPattern s)"
  by (simp add: useFrame_def Let_def split: prod.splits)

lemma useFrame_arrays:
  assumes "isTrans s" "length (sparkleArr s) \<le> length (particleArr s)"
  shows "particleArr (useFrame fr s) =
           map (\<lambda>j. lerp (rd (ud_from s) j) (rd (ud_to s) j) (eased (prog s + morphSpeed)))
               [0..<length (particleArr s)]"
    and "sparkleArr (useFrame fr s) =
           map (\<lambda>j. lerp (rd (ud_from s) j) (rd (ud_to s) j) (eased (prog s + morphSpeed)))
               [0..<length (sparkleArr s)]"
  using assms by (simp_all add: useFrame_def Let_def morph_loop_result)

lemma useFrame_lengths:
  assumes "length (sparkleArr s) \<le> length (particleArr s)"
  shows "length (particleArr (useFrame fr s)) = length (particleArr s)"
    and "length (sparkleArr (useFrame fr s)) = length (sparkleArr s)"
  using assms by (cases "isTrans s"; simp add: useFrame_idle useFrame_arrays)+

lemma useFrame_mirror:
  assumes "length (sparkleArr s) \<le> length (particleArr s)"
    and "sparkleArr s = take (length (sparkleArr s)) (particleArr s)"
  shows "sparkleArr (useFrame fr s) = take (length (sparkleArr s)) (particleArr (useFrame fr s))"
proof (cases "isTrans s")
  case False
  with assms(2) show ?thesis by (simp add: useFrame_idle)
next
  case True
  show ?thesis
    unfolding useFrame_arrays[OF True assms(1)] using assms(1)
    by (simp add: take_map min_def)
qed

lemma coords_no_NaN: "None \<notin> set (coords pts)"
  by (induction pts) (simp_all add: coords_Nil coords_Cons)

lemma triggerMorph_active: "isTrans s \<Longrightarrow> triggerMorph knot rnd s = Inr s"
  by (simp add: triggerMorph_def)

lemma length_PATTERNS: "length (PATTERNS knot rnd) = 4"
  by (simp add: PATTERNS_def)

lemma triggerMorph_idle:
  assumes "\<not> isTrans s"
  shows "triggerMorph knot rnd s =
     (case call_pattern knot rnd ((currentPattern s + 1) mod 4) PARTICLE_COUNT of
        Inl e \<Rightarrow> Inl (e, s\<lparr>isTrans := True, prog := 0\<rparr>)
      | Inr pts \<Rightarrow> Inr (s\<lparr>isTrans := True, prog := 0, ud_from := particleArr s,
            ud_to := coords (map (point_or_zero pts) [0..<PARTICLE_COUNT]),
            ud_next := (currentPattern s + 1) mod 4\<rparr>))"
  using assms to_loop_eq[of "replicate (PARTICLE_COUNT * 3) (Some 0)" 0]
  by (simp add: triggerMorph_def Let_def length_PATTERNS split: sum.splits)

lemma call_halvorsen:
  assumes "random_ok rnd"
  shows "\<exists>pts. call_pattern knot rnd 1 PARTICLE_COUNT = Inr pts \<and> halvorsen rnd PARTICLE_COUNT = Inr pts
      \<and> length pts = PARTICLE_COUNT"
proof -
  have "10 \<le> PARTICLE_COUNT" by (simp add: PARTICLE_COUNT_def)
  from halvorsen_returns[OF assms this] show ?thesis
    by (auto simp: call_pattern_def PATTERNS_def)
qed

lemma applyPattern_eq:
  "applyPattern knot rnd i s =
     (case call_pattern knot rnd i PARTICLE_COUNT of
        Inl e \<Rightarrow> Inl e
      | Inr pts \<Rightarrow>
          Inr (s\<lparr>particleArr := fst (applyPattern_loop pts 0 (particleArr s, sparkleArr s)),
                 sparkleArr := snd (applyPattern_loop pts 0 (particleArr s, sparkleArr s))\<rparr>))"
  by (simp add: applyPattern_def Let_def split: sum.splits prod.splits)

lemma reachable_buffers:
  assumes "reachable knot s"
  shows "length (particleArr s) = PARTICLE_COUNT * 3 \<and> length (sparkleArr s) = SPARK_COUNT * 3 \<and>
         sparkleArr s = take (SPARK_COUNT * 3) (particleArr s)"
  using assms
proof (induction rule: reachable.induct)
  case created
  show ?case by (simp add: init_state_def PARTICLE_COUNT_def SPARK_COUNT_def)
next
  case (mounted rnd s)
  have l: "length (particleArr init_state) = PARTICLE_COUNT * 3"
    "length (sparkleArr init_state) = SPARK_COUNT * 3" by (simp_all add: init_state_def)
  from mounted(2) obtain pts where
    s: "s = init_state\<lparr>particleArr := fst (applyPattern_loop pts 0 (particleArr init_state, sparkleArr init_state)),
         sparkleArr := snd (applyPattern_loop pts 0 (particleArr init_state, sparkleArr init_state))\<rparr>"
    unfolding applyPattern_eq by (auto split: sum.splits)
  show ?case
    unfolding s using applyPattern_loop_lengths[OF l] applyPattern_loop_mirror[OF l] by simp
next
  case (triggered s rnd s')
  then show ?case
    by (cases "isTrans s") (auto simp: triggerMorph_active triggerMorph_idle split: sum.splits)
next
  case (trigger_raised s rnd e s')
  then show ?case
    by (cases "isTrans s") (auto simp: triggerMorph_active triggerMorph_idle split: sum.splits)
next
  case (frame s fr)
  from frame.IH have lp: "length (particleArr s) = PARTICLE_COUNT * 3"
    and ls: "length (sparkleArr s) = SPARK_COUNT * 3"
    and mi: "sparkleArr s = take (SPARK_COUNT * 3) (particleArr s)" by blast+
  have le: "length (sparkleArr s) \<le> length (particleArr s)"
    unfolding lp ls by (simp add: PARTICLE_COUNT_def SPARK_COUNT_def)
  have m: "sparkleArr s = take (length (sparkleArr s)) (particleArr s)"
    unfolding ls by (rule mi)
  show ?case
    using useFrame_lengths[OF le, of fr] useFrame_mirror[OF le m, of fr]
    unfolding lp ls by blast
qed

text \<open>C2: after every frame, in a transition or not, the sparkle position array equals
  the first \<open>SPARK_COUNT * 3\<close> cells of the particle position array. The frame copies the
  value only during a transition; outside one neither array changes, and the effect that
  applies the initial pattern wrote both.\<close>

theorem sparkle_mirrors_particles:
  assumes "reachable knot s"
  shows "sparkleArr (useFrame fr s) = take (SPARK_COUNT * 3) (particleArr (useFrame fr s))"
  using reachable_buffers[OF reachable.frame[OF assms, of fr]] by simp

subsection \<open>Rounding\<close>

lemma pow2_powr: "pow2 k = 2 powr (real_of_int k)"
  by (simp add: pow2_def powr_real_of_int field_simps)

lemma exponent_eq:
  assumes "pow2 e \<le> \<bar>x\<bar>" "\<bar>x\<bar> < pow2 (e + 1)"
  shows "exponent x = e"
proof -
  have pos: "0 < \<bar>x\<bar>" using assms(1) by (simp add: pow2_powr) (smt (verit) powr_gt_zero)
  have "2 powr (real_of_int e) \<le> \<bar>x\<bar> \<and> \<bar>x\<bar> < 2 powr (real_of_int e + 1)"
    using assms by (simp add: pow2_powr add.commute)
  then show ?thesis
    unfolding exponent_def using floor_log_eq_powr_iff[OF pos, of 2 e] by simp
qed

lemma round_binary_eval:
  assumes "pow2 e \<le> \<bar>x\<bar>" "\<bar>x\<bar> < pow2 (e + 1)"
  shows "round_binary p qmin x =
         of_int (rne (x / pow2 (max (e - (p - 1)) qmin))) * pow2 (max (e - (p - 1)) qmin)"
proof -
  have "0 < pow2 e" by (simp add: pow2_def)
  with assms(1) have "x \<noteq> 0" by auto
  then show ?thesis
    by (simp add: round_binary_def Let_def exponent_eq[OF assms])
qed


lemma morph_loop_ieee_fst:
  assumes "i \<le> length pa"
  shows "fst (morph_loop_ieee src dst e i (pa, sa)) =
         take i pa @ map (\<lambda>j. Float32_store (lerp_ieee (rd src j) (rd dst j) e)) [i..<length pa]"
  using assms
proof (induction src dst e i "(pa, sa)" arbitrary: pa sa rule: morph_loop_ieee.induct)
  case (1 src dst e i pa sa)
  show ?case
  proof (cases "i < length pa")
    case False
    with "1.prems" show ?thesis by (subst morph_loop_ieee.simps) simp
  next
    case True
    let ?v = "Float32_store (lerp_ieee (rd src i) (rd dst i) e)"
    let ?pa = "pa[i := ?v]"
    let ?sa = "if i < length sa then sa[i := ?v] else sa"
    have step: "morph_loop_ieee src dst e i (pa, sa) = morph_loop_ieee src dst e (i + 1) (?pa, ?sa)"
      using True by (subst morph_loop_ieee.simps) (simp add: Let_def)
    have i1: "i + 1 \<le> length ?pa" using True by simp
    have "fst (morph_loop_ieee src dst e (i + 1) (?pa, ?sa)) =
          take (i + 1) ?pa @ map (\<lambda>j. Float32_store (lerp_ieee (rd src j) (rd dst j) e)) [i + 1..<length ?pa]"
      by (rule "1.hyps"[OF True refl refl refl i1])
    also have "take (i + 1) ?pa = take i pa @ [?v]"
      using True by (simp add: take_Suc_conv_app_nth)
    finally show ?thesis using step True by (simp add: upt_conv_Cons)
  qed
qed

lemma fround_zero: "fround 0 = 0"
  by (simp add: fround_def round_binary_def)

lemma to_loop_Float32_eq: "to_loop_Float32 pts j to = to_loop (map fround3 pts) j to"
proof (induction pts j to rule: to_loop_Float32.induct)
  case (1 pts j to)
  show ?case
  proof (cases "j < PARTICLE_COUNT")
    case False
    then show ?thesis
      by (subst to_loop_Float32.simps, subst to_loop.simps) simp
  next
    case True
    have p: "point_or_zero (map fround3 pts) j = fround3 (point_or_zero pts j)"
      by (simp add: point_or_zero_def fround3_def zero3_def fround_zero)
    have w: "write3_Float32 to (j * 3) (point_or_zero pts j) =
             write3 to (j * 3) (fround3 (point_or_zero pts j))"
      by (simp add: write3_Float32_def write3_def Float32_store_def fround3_def)
    show ?thesis
      using "1.IH"[OF True refl refl] True
      by (subst to_loop_Float32.simps, subst to_loop.simps) (simp add: Let_def p w)
  qed
qed

lemma lerp_ieee_exact:
  assumes "fl64 (b - a) = b - a" "fl64 b = b" "fround b = b"
  shows "Float32_store (lerp_ieee (Some a) (Some b) 1) = Some b"
  using assms by (simp add: lerp_ieee_def Float32_store_def)

text \<open>
  The rounding functions on known values: the doubles nearest to 0.1 and 0.2, their sum
  \<^verbatim>\<open>0.1 + 0.2 = 0.30000000000000004\<close>, two ties, the literal \<^verbatim>\<open>0.03\<close> of
  \<^verbatim>\<open>morphSpeed\<close>, and \<^verbatim>\<open>Math.fround(0.1)\<close>.
\<close>

lemma fl64_tenth: "fl64 (1 / 10) = 3602879701896397 / 2 ^ 55"
  unfolding fl64_def
  by (subst round_binary_eval[where e = "- 4"]) (simp_all add: pow2_def rne_def Let_def)

lemma fl64_fifth: "fl64 (2 / 10) = 3602879701896397 / 2 ^ 54"
  unfolding fl64_def
  by (subst round_binary_eval[where e = "- 3"]) (simp_all add: pow2_def rne_def Let_def)

lemma fl64_tenth_plus_fifth:
  "fl64 (3602879701896397 / 2 ^ 55 + 3602879701896397 / 2 ^ 54) = 5404319552844596 / 2 ^ 54"
  unfolding fl64_def
  by (subst round_binary_eval[where e = "- 2"]) (simp_all add: pow2_def rne_def Let_def)

lemma fl64_tie_down: "fl64 (1 + 1 / 2 ^ 53) = 1"
  unfolding fl64_def
  by (subst round_binary_eval[where e = 0]) (simp_all add: pow2_def rne_def Let_def)

lemma fl64_tie_up: "fl64 (1 + 3 / 2 ^ 53) = 1 + 1 / 2 ^ 51"
  unfolding fl64_def
  by (subst round_binary_eval[where e = 0]) (simp_all add: pow2_def rne_def Let_def)

lemma fl64_morphSpeed: "fl64 (3 / 100) = 8646911284551352 / 2 ^ 58"
  unfolding fl64_def
  by (subst round_binary_eval[where e = "- 6"]) (simp_all add: pow2_def rne_def Let_def)

lemma fround_tenth: "fround (1 / 10) = 13421773 / 2 ^ 27"
  unfolding fround_def
  by (subst round_binary_eval[where e = "- 4"]) (simp_all add: pow2_def rne_def Let_def)

text \<open>
  The cell of the reference computation below: \<open>from = 9372373 / 2 ^ 19\<close> is the single
  precision number 17.87638282775879 and \<open>to = 5421779 / 2 ^ 69\<close> is the single precision
  number 9.184850891462946e-15. The quantum of a double near 17.9 is \<open>2 ^ -48\<close>, about
  3.6e-15, so \<open>to - from\<close> is rounded to a multiple of it and adding \<open>from\<close> back gives
  \<open>3 / 2 ^ 48\<close>, which is 1.0658141036401503e-14.
\<close>

lemma fround_from: "fround (9372373 / 2 ^ 19) = 9372373 / 2 ^ 19"
  unfolding fround_def
  by (subst round_binary_eval[where e = 4]) (simp_all add: pow2_def rne_def Let_def)

lemma fround_to: "fround (5421779 / 2 ^ 69) = 5421779 / 2 ^ 69"
  unfolding fround_def
  by (subst round_binary_eval[where e = "- 47"]) (simp_all add: pow2_def rne_def Let_def)

lemma fl64_difference: "fl64 (5421779 / 2 ^ 69 - 9372373 / 2 ^ 19) = - (5031754440114173 / 2 ^ 48)"
  unfolding fl64_def
  by (subst round_binary_eval[where e = 4]) (simp_all add: pow2_def rne_def Let_def)

lemma fl64_product: "fl64 (- (5031754440114173 / 2 ^ 48) * 1) = - (5031754440114173 / 2 ^ 48)"
  unfolding fl64_def
  by (subst round_binary_eval[where e = 4]) (simp_all add: pow2_def rne_def Let_def)

lemma fl64_sum: "fl64 (9372373 / 2 ^ 19 + - (5031754440114173 / 2 ^ 48)) = 3 / 2 ^ 48"
  unfolding fl64_def
  by (subst round_binary_eval[where e = "- 47"]) (simp_all add: pow2_def rne_def Let_def)

lemma fround_sum: "fround (3 / 2 ^ 48) = 3 / 2 ^ 48"
  unfolding fround_def
  by (subst round_binary_eval[where e = "- 47"]) (simp_all add: pow2_def rne_def Let_def)

lemma rd_Cons_0: "rd (x # xs) 0 = x"
  by (simp add: rd_def)

lemma endpoint_cell:
  "Float32_store (lerp_ieee (Some (9372373 / 2 ^ 19)) (Some (5421779 / 2 ^ 69)) 1) = Some (3 / 2 ^ 48)"
  by (simp only: lerp_ieee_def Float32_store_def option.case option.map
      fl64_difference fl64_product fl64_sum fround_sum)

text \<open>
  The coordinate of the second reference computation: \<open>7230912106729437 / 2 ^ 48\<close> is the
  double 25.68936035178182; the single precision number nearest to it is
  \<open>13468623 / 2 ^ 19\<close>, which is 25.689359664916992.
\<close>

lemma fl64_coordinate: "fl64 (7230912106729437 / 2 ^ 48) = 7230912106729437 / 2 ^ 48"
  unfolding fl64_def
  by (subst round_binary_eval[where e = 4]) (simp_all add: pow2_def rne_def Let_def)

lemma fround_coordinate: "fround (7230912106729437 / 2 ^ 48) = 13468623 / 2 ^ 19"
  unfolding fround_def
  by (subst round_binary_eval[where e = 4]) (simp_all add: pow2_def rne_def Let_def)

lemma fl64_stored: "fl64 (13468623 / 2 ^ 19) = 13468623 / 2 ^ 19"
  unfolding fl64_def
  by (subst round_binary_eval[where e = 4]) (simp_all add: pow2_def rne_def Let_def)

lemma fround_stored: "fround (13468623 / 2 ^ 19) = 13468623 / 2 ^ 19"
  unfolding fround_def
  by (subst round_binary_eval[where e = 4]) (simp_all add: pow2_def rne_def Let_def)

lemma coords_replicate_0: "0 < n \<Longrightarrow> coords (replicate n p) ! 0 = Some (vx p)"
  by (cases n) (simp_all add: coords_Cons)

subsection \<open>Runs of the morph state machine\<close>

lemma ticks_Nil: "ticks [] s = s"
  by (simp add: ticks_def)

lemma ticks_snoc: "ticks (frs @ [fr]) s = useFrame fr (ticks frs s)"
  by (simp add: ticks_def)

lemma reachable_ticks: "reachable knot s \<Longrightarrow> reachable knot (ticks frs s)"
  by (induction frs rule: rev_induct) (simp_all add: ticks_Nil ticks_snoc reachable.frame)

lemma ticks_userData:
  "ud_from (ticks frs s) = ud_from s" "ud_to (ticks frs s) = ud_to s"
  "ud_next (ticks frs s) = ud_next s"
  by (induction frs rule: rev_induct) (simp_all add: ticks_Nil ticks_snoc useFrame_userData)

lemma ticks_active:
  assumes "isTrans s" "prog s + real (length frs) * morphSpeed < 1"
  shows "isTrans (ticks frs s) \<and> prog (ticks frs s) = prog s + real (length frs) * morphSpeed
         \<and> currentPattern (ticks frs s) = currentPattern s"
  using assms(2)
proof (induction frs rule: rev_induct)
  case Nil
  show ?case using assms(1) by (simp add: ticks_Nil)
next
  case (snoc fr frs)
  have pos: "0 < morphSpeed" by (simp add: morphSpeed_def)
  from snoc.prems have lt: "prog s + real (length frs) * morphSpeed + morphSpeed < 1"
    by (simp add: algebra_simps)
  with pos have "prog s + real (length frs) * morphSpeed < 1" by simp
  from snoc.IH[OF this] have a: "isTrans (ticks frs s)"
    and p: "prog (ticks frs s) = prog s + real (length frs) * morphSpeed"
    and c: "currentPattern (ticks frs s) = currentPattern s" by blast+
  show ?case
    using lt unfolding ticks_snoc
    by (simp add: useFrame_isTrans[OF a] useFrame_prog[OF a] useFrame_currentPattern[OF a] p c
        algebra_simps)
qed

lemma reachable_userData:
  assumes "reachable knot s"
  shows "None \<notin> set (particleArr s) \<and>
         ((length (ud_from s) = PARTICLE_COUNT * 3 \<and> length (ud_to s) = PARTICLE_COUNT * 3 \<and>
           None \<notin> set (ud_from s) \<and> None \<notin> set (ud_to s))
          \<or> (\<not> isTrans s \<and> currentPattern s = 0))"
  using assms
proof (induction rule: reachable.induct)
  case created
  show ?case by (simp add: init_state_def)
next
  case (mounted rnd s)
  have l: "length (particleArr init_state) = PARTICLE_COUNT * 3" by (simp add: init_state_def)
  from mounted(2) obtain pts where
    s: "s = init_state\<lparr>particleArr := fst (applyPattern_loop pts 0 (particleArr init_state, sparkleArr init_state)),
         sparkleArr := snd (applyPattern_loop pts 0 (particleArr init_state, sparkleArr init_state))\<rparr>"
    unfolding applyPattern_eq by (auto split: sum.splits)
  have "None \<notin> set (particleArr s)"
    unfolding s using applyPattern_loop_fst[OF l, of 0 pts "sparkleArr init_state"]
    by (simp add: coords_no_NaN)
  moreover have "\<not> isTrans s \<and> currentPattern s = 0"
    unfolding s by (simp add: init_state_def)
  ultimately show ?case by blast
next
  case (triggered s rnd s')
  show ?case
  proof (cases "isTrans s")
    case True
    with triggered show ?thesis by (simp add: triggerMorph_active)
  next
    case False
    from reachable_buffers[OF triggered(1)] have lp: "length (particleArr s) = PARTICLE_COUNT * 3"
      by blast
    from triggered(3) obtain pts where
      s': "s' = s\<lparr>isTrans := True, prog := 0, ud_from := particleArr s,
            ud_to := coords (map (point_or_zero pts) [0..<PARTICLE_COUNT]),
            ud_next := (currentPattern s + 1) mod 4\<rparr>"
      unfolding triggerMorph_idle[OF False] by (auto split: sum.splits)
    show ?thesis
      unfolding s' using triggered.IH lp by (simp add: coords_no_NaN length_coords)
  qed
next
  case (trigger_raised s rnd e s')
  from trigger_raised(3) have idle: "\<not> isTrans s"
    by (auto simp: triggerMorph_active)
  from trigger_raised(3) have s': "s' = s\<lparr>isTrans := True, prog := 0\<rparr>"
    and raised: "\<exists>e. call_pattern knot rnd ((currentPattern s + 1) mod 4) PARTICLE_COUNT = Inl e"
    unfolding triggerMorph_idle[OF idle] by (auto split: sum.splits)
  have "currentPattern s \<noteq> 0"
  proof
    assume "currentPattern s = 0"
    with raised call_halvorsen[OF trigger_raised(2), of knot] show False by auto
  qed
  with trigger_raised.IH show ?case unfolding s' by simp
next
  case (frame s fr)
  show ?case
  proof (cases "isTrans s")
    case False
    with frame.IH show ?thesis by (simp add: useFrame_idle useFrame_userData)
  next
    case True
    from reachable_buffers[OF frame(1)] have lp: "length (particleArr s) = PARTICLE_COUNT * 3"
      and ls: "length (sparkleArr s) = SPARK_COUNT * 3" by blast+
    have le: "length (sparkleArr s) \<le> length (particleArr s)"
      unfolding lp ls by (simp add: PARTICLE_COUNT_def SPARK_COUNT_def)
    from frame.IH True have ud: "length (ud_from s) = PARTICLE_COUNT * 3"
      "length (ud_to s) = PARTICLE_COUNT * 3" "None \<notin> set (ud_from s)" "None \<notin> set (ud_to s)"
      by blast+
    have "None \<notin> set (particleArr (useFrame fr s))"
      unfolding useFrame_arrays(1)[OF True le] lp by (rule morph_no_NaN[OF ud])
    with ud show ?thesis by (simp add: useFrame_userData)
  qed
qed

lemma eased_end: "1 \<le> p \<Longrightarrow> eased p = 1"
  by (simp add: eased_def)

lemma final_frame:
  assumes "reachable knot s" "isTrans s" "1 \<le> prog s + morphSpeed"
  shows "particleArr (useFrame fr s) = ud_to s" "\<not> isTrans (useFrame fr s)"
    "currentPattern (useFrame fr s) = ud_next s" "prog (useFrame fr s) = prog s + morphSpeed"
proof -
  from reachable_buffers[OF assms(1)] have lp: "length (particleArr s) = PARTICLE_COUNT * 3"
    and ls: "length (sparkleArr s) = SPARK_COUNT * 3" by blast+
  have le: "length (sparkleArr s) \<le> length (particleArr s)"
    unfolding lp ls by (simp add: PARTICLE_COUNT_def SPARK_COUNT_def)
  from reachable_userData[OF assms(1)] assms(2)
  have ud: "length (ud_from s) = PARTICLE_COUNT * 3"
    "length (ud_to s) = PARTICLE_COUNT * 3" "None \<notin> set (ud_from s)" "None \<notin> set (ud_to s)"
    by blast+
  show "particleArr (useFrame fr s) = ud_to s"
    unfolding useFrame_arrays(1)[OF assms(2) le] lp eased_end[OF assms(3)]
    by (rule morph_end[OF ud])
  show "\<not> isTrans (useFrame fr s)" using assms(3) by (simp add: useFrame_isTrans[OF assms(2)])
  show "currentPattern (useFrame fr s) = ud_next s"
    using assms(3) by (simp add: useFrame_currentPattern[OF assms(2)])
  show "prog (useFrame fr s) = prog s + morphSpeed" by (rule useFrame_prog[OF assms(2)])
qed

lemma trigger_from_start:
  assumes "\<not> isTrans s0" "currentPattern s0 = 0" "random_ok rnd"
  shows "\<exists>pts. halvorsen rnd PARTICLE_COUNT = Inr pts \<and> length pts = PARTICLE_COUNT \<and>
           triggerMorph knot rnd s0 =
             Inr (s0\<lparr>isTrans := True, prog := 0, ud_from := particleArr s0,
                      ud_to := coords pts, ud_next := 1\<rparr>)"
proof -
  from call_halvorsen[OF assms(3), of knot] obtain pts where
    c: "call_pattern knot rnd 1 PARTICLE_COUNT = Inr pts" and h: "halvorsen rnd PARTICLE_COUNT = Inr pts"
    and l: "length pts = PARTICLE_COUNT" by blast
  have "map (point_or_zero pts) [0..<PARTICLE_COUNT] = pts"
    using map_point_or_zero[of PARTICLE_COUNT pts] l by simp
  with c h l show ?thesis
    unfolding triggerMorph_idle[OF assms(1)] assms(2) by simp
qed

lemma random_ok_zero: "random_ok (\<lambda>_. 0)"
  by (simp add: random_ok_def)

lemma first_trigger:
  "\<exists>pts. triggerMorph knot (\<lambda>_. 0) init_state =
      Inr (init_state\<lparr>isTrans := True, prog := 0, ud_from := particleArr init_state,
                      ud_to := coords pts, ud_next := 1\<rparr>)"
proof -
  have "\<not> isTrans init_state" "currentPattern init_state = 0" by (simp_all add: init_state_def)
  from trigger_from_start[OF this random_ok_zero, of knot] show ?thesis by blast
qed

lemma first_trigger_projr:
  "isTrans (projr (triggerMorph knot (\<lambda>_. 0) init_state))"
  "prog (projr (triggerMorph knot (\<lambda>_. 0) init_state)) = 0"
  "triggerMorph knot (\<lambda>_. 0) init_state = Inr (projr (triggerMorph knot (\<lambda>_. 0) init_state))"
  "reachable knot (projr (triggerMorph knot (\<lambda>_. 0) init_state))"
proof -
  from first_trigger[of knot] obtain pts where
    t: "triggerMorph knot (\<lambda>_. 0) init_state =
      Inr (init_state\<lparr>isTrans := True, prog := 0, ud_from := particleArr init_state,
                      ud_to := coords pts, ud_next := 1\<rparr>)" by blast
  show "isTrans (projr (triggerMorph knot (\<lambda>_. 0) init_state))"
    "prog (projr (triggerMorph knot (\<lambda>_. 0) init_state)) = 0"
    and r: "triggerMorph knot (\<lambda>_. 0) init_state = Inr (projr (triggerMorph knot (\<lambda>_. 0) init_state))"
    unfolding t by simp_all
  show "reachable knot (projr (triggerMorph knot (\<lambda>_. 0) init_state))"
    by (rule reachable.triggered[OF reachable.created random_ok_zero r])
qed

text \<open>
  A mount with a sample array of two points: \<^verbatim>\<open>torusKnot\<close> cycles through the two, the
  Normalizer centres them at \<open>(1, 0, 0)\<close> and scales by \<open>50 / 2\<close>, and \<^verbatim>\<open>applyPattern\<close>
  writes the result: the first cell of the particle array is \<open>-25\<close>.
\<close>

lemma torusKnot_loop_eq:
  "points \<noteq> [] \<Longrightarrow>
   torusKnot_loop points n i result =
     Inr (result @ map (\<lambda>j. points ! (j mod length points)) [i..<n])"
proof (induction points n i result rule: torusKnot_loop.induct)
  case (1 points n i result)
  show ?case
  proof (cases "i < n")
    case False
    then show ?thesis by (subst torusKnot_loop.simps) simp
  next
    case True
    with "1.prems" have ne: "length points \<noteq> 0" by simp
    from "1.IH"[OF True ne "1.prems"] True ne show ?thesis
      by (subst torusKnot_loop.simps) (simp add: upt_conv_Cons)
  qed
qed

lemma two_point_knot:
  "torusKnot [Vector3 0 0 0, Vector3 2 0 0] PARTICLE_COUNT =
     Inr (map (\<lambda>p. multiplyScalar (sub p (Vector3 1 0 0)) 25)
            (map (\<lambda>j. [Vector3 0 0 0, Vector3 2 0 0] ! (j mod 2)) [0..<PARTICLE_COUNT]))"
proof -
  let ?K = "[Vector3 0 0 0, Vector3 2 0 0]"
  let ?raw = "map (\<lambda>j. ?K ! (j mod 2)) [0..<PARTICLE_COUNT]"
  have ne: "?raw \<noteq> []" by (simp add: PARTICLE_COUNT_def)
  have "set ?raw \<subseteq> set ?K"
  proof
    fix p assume "p \<in> set ?raw"
    then obtain j where "p = ?K ! (j mod 2)" by auto
    moreover have "j mod 2 = 0 \<or> j mod 2 = 1" by presburger
    ultimately show "p \<in> set ?K" by auto
  qed
  moreover have "?K ! (0 mod 2) \<in> set ?raw" "?K ! (1 mod 2) \<in> set ?raw"
    by (rule image_eqI[where x = 0] image_eqI[where x = 1] |
        simp add: PARTICLE_COUNT_def)+
  ultimately have s: "set ?raw = {Vector3 0 0 0, Vector3 2 0 0}" by auto
  have box: "setFromPoints ?raw = Box3 (Vector3 0 0 0) (Vector3 2 0 0)"
    unfolding setFromPoints_nonempty[OF ne] s by simp
  have e: "extent ?raw = 2"
    unfolding extent_eq[OF ne] s by simp
  have c: "getCenter (setFromPoints ?raw) = Vector3 1 0 0"
    unfolding box by (simp add: getCenter_def addVectors_def multiplyScalar_def)
  have "normalise ?raw 50 = map (\<lambda>p. multiplyScalar (sub p (Vector3 1 0 0)) 25) ?raw"
    unfolding normalise_map[OF ne] e c by simp
  moreover have "torusKnot_loop ?K PARTICLE_COUNT 0 [] = Inr ?raw"
    using torusKnot_loop_eq[of ?K PARTICLE_COUNT 0 "[]"] by (simp add: numeral_2_eq_2)
  ultimately show ?thesis
    by (simp only: torusKnot_def sum.case)
qed

lemma coords_map_upt_0: "0 < n \<Longrightarrow> coords (map f [0..<n]) ! 0 = Some (vx (f 0))"
proof -
  assume "0 < n"
  then have "[0..<n] = 0 # [Suc 0..<n]" by (rule upt_conv_Cons)
  then show ?thesis by (simp add: coords_Cons)
qed

lemma mounted_two_point_knot:
  fixes M
  defines "M \<equiv> projr (applyPattern [Vector3 0 0 0, Vector3 2 0 0] (\<lambda>_. 0) (currentPattern init_state) init_state)"
  shows "applyPattern [Vector3 0 0 0, Vector3 2 0 0] (\<lambda>_. 0) (currentPattern init_state) init_state = Inr M"
    and "particleArr M ! 0 = Some (- 25)" and "\<not> isTrans M" and "currentPattern M = 0"
proof -
  let ?K = "[Vector3 0 0 0, Vector3 2 0 0]"
  let ?pts = "map (\<lambda>p. multiplyScalar (sub p (Vector3 1 0 0)) 25)
            (map (\<lambda>j. ?K ! (j mod 2)) [0..<PARTICLE_COUNT])"
  let ?loop = "applyPattern_loop ?pts 0 (particleArr init_state, sparkleArr init_state)"
  have cp: "currentPattern init_state = 0" by (simp add: init_state_def)
  have call: "call_pattern ?K (\<lambda>_. 0) 0 PARTICLE_COUNT = Inr ?pts"
    by (simp add: call_pattern_def PATTERNS_def two_point_knot)
  have a: "applyPattern ?K (\<lambda>_. 0) (currentPattern init_state) init_state =
        Inr (init_state\<lparr>particleArr := fst ?loop, sparkleArr := snd ?loop\<rparr>)"
    unfolding cp applyPattern_eq call by simp
  then have M: "M = init_state\<lparr>particleArr := fst ?loop, sparkleArr := snd ?loop\<rparr>"
    unfolding M_def by simp
  show "applyPattern ?K (\<lambda>_. 0) (currentPattern init_state) init_state = Inr M"
    unfolding M by (rule a)
  have l: "length (particleArr init_state) = PARTICLE_COUNT * 3" by (simp add: init_state_def)
  have pc: "0 < PARTICLE_COUNT" by (simp add: PARTICLE_COUNT_def)
  have lp: "length ?pts = PARTICLE_COUNT" by simp
  have "fst ?loop = coords (map (point_or_zero ?pts) [0..<PARTICLE_COUNT])"
    using applyPattern_loop_fst[OF l, of 0 ?pts "sparkleArr init_state"] by simp
  also have "map (point_or_zero ?pts) [0..<PARTICLE_COUNT] = ?pts"
    using map_point_or_zero[of PARTICLE_COUNT ?pts] lp by simp
  finally have f: "fst ?loop = coords ?pts" .
  have "coords ?pts ! 0 = Some (- 25)"
    unfolding map_map using coords_map_upt_0[OF pc] by (simp add: multiplyScalar_def sub_def)
  then show "particleArr M ! 0 = Some (- 25)" unfolding M using f by simp
  show "\<not> isTrans M" "currentPattern M = 0" unfolding M by (simp_all add: init_state_def)
qed



text \<open>The theorem of C2 at a frame in the middle of a morph: the component is mounted with
  the two-point sample array (which writes both position arrays), a trigger starts the
  transition, and the frame is an active one, so its loop writes every cell of the particle
  array and the first \<open>SPARK_COUNT * 3\<close> cells of the sparkle array.\<close>

theorem sparkle_mirrors_particles_witness:
  "reachable [Vector3 0 0 0, Vector3 2 0 0]
     (projr (triggerMorph [Vector3 0 0 0, Vector3 2 0 0] (\<lambda>_. 0)
        (projr (applyPattern [Vector3 0 0 0, Vector3 2 0 0] (\<lambda>_. 0) (currentPattern init_state) init_state)))) \<and>
   isTrans
     (projr (triggerMorph [Vector3 0 0 0, Vector3 2 0 0] (\<lambda>_. 0)
        (projr (applyPattern [Vector3 0 0 0, Vector3 2 0 0] (\<lambda>_. 0) (currentPattern init_state) init_state)))) \<and>
   particleArr
     (projr (applyPattern [Vector3 0 0 0, Vector3 2 0 0] (\<lambda>_. 0) (currentPattern init_state) init_state)) ! 0
     = Some (- 25) \<and>
   sparkleArr (useFrame (1, 1 / 60)
     (projr (triggerMorph [Vector3 0 0 0, Vector3 2 0 0] (\<lambda>_. 0)
        (projr (applyPattern [Vector3 0 0 0, Vector3 2 0 0] (\<lambda>_. 0) (currentPattern init_state) init_state))))) =
   take (SPARK_COUNT * 3) (particleArr (useFrame (1, 1 / 60)
     (projr (triggerMorph [Vector3 0 0 0, Vector3 2 0 0] (\<lambda>_. 0)
        (projr (applyPattern [Vector3 0 0 0, Vector3 2 0 0] (\<lambda>_. 0) (currentPattern init_state) init_state))))))"
proof -
  let ?K = "[Vector3 0 0 0, Vector3 2 0 0]"
  let ?M = "projr (applyPattern ?K (\<lambda>_. 0) (currentPattern init_state) init_state)"
  let ?T = "projr (triggerMorph ?K (\<lambda>_. 0) ?M)"
  note m = mounted_two_point_knot
  have rM: "reachable ?K ?M" by (rule reachable.mounted[OF random_ok_zero m(1)])
  from trigger_from_start[OF m(3,4) random_ok_zero, of ?K] obtain pts where
    t: "triggerMorph ?K (\<lambda>_. 0) ?M =
          Inr (?M\<lparr>isTrans := True, prog := 0, ud_from := particleArr ?M,
                   ud_to := coords pts, ud_next := 1\<rparr>)" by blast
  have a: "isTrans ?T" and tt: "triggerMorph ?K (\<lambda>_. 0) ?M = Inr ?T"
    unfolding t by simp_all
  have rT: "reachable ?K ?T" by (rule reachable.triggered[OF rM random_ok_zero tt])
  from sparkle_mirrors_particles[OF rT, of "(1, 1 / 60)"] rT a m(2) show ?thesis by blast
qed

text \<open>C3 (as amended): at the frame at which the progress of an active transition reaches
  or exceeds 1 (in a reachable state an active transition has progress below 1, so this is
  the first such frame), the eased value is exactly 1 and every cell of the particle
  position array is written as \<open>from[i] + (to[i] - from[i]) * 1\<close>, which in exact arithmetic
  is the cell of \<^verbatim>\<open>to\<close>: the array equals \<^verbatim>\<open>to\<close> up to floating-point rounding.\<close>

theorem morph_endpoint_exact:
  assumes "reachable knot s" "isTrans s" "1 \<le> prog s + morphSpeed"
  shows "1 \<le> prog (useFrame fr s) \<and> eased (prog (useFrame fr s)) = 1 \<and>
         particleArr (useFrame fr s) = ud_to s"
  using final_frame(1,4)[OF assms, of fr] assms(3) by (simp add: eased_end)

text \<open>The theorem at the state 33 frames after the first trigger, where the progress is
  0.99.\<close>

theorem morph_endpoint_exact_witness:
  "reachable [zero3] (ticks (replicate 33 (0, 0)) (projr (triggerMorph [zero3] (\<lambda>_. 0) init_state))) \<and>
   isTrans (ticks (replicate 33 (0, 0)) (projr (triggerMorph [zero3] (\<lambda>_. 0) init_state))) \<and>
   1 \<le> prog (ticks (replicate 33 (0, 0)) (projr (triggerMorph [zero3] (\<lambda>_. 0) init_state))) + morphSpeed \<and>
   eased (prog (useFrame (0, 0)
      (ticks (replicate 33 (0, 0)) (projr (triggerMorph [zero3] (\<lambda>_. 0) init_state))))) = 1 \<and>
   particleArr (useFrame (0, 0)
      (ticks (replicate 33 (0, 0)) (projr (triggerMorph [zero3] (\<lambda>_. 0) init_state)))) =
     ud_to (ticks (replicate 33 (0, 0)) (projr (triggerMorph [zero3] (\<lambda>_. 0) init_state)))"
proof -
  let ?s1 = "projr (triggerMorph [zero3] (\<lambda>_. 0) init_state)"
  let ?s = "ticks (replicate 33 (0, 0)) ?s1"
  have r: "reachable [zero3] ?s"
    by (rule reachable_ticks[OF first_trigger_projr(4)])
  have "prog ?s1 + real (length (replicate 33 (0::real, 0::real))) * morphSpeed < 1"
    by (simp add: first_trigger_projr(2) morphSpeed_def)
  from ticks_active[OF first_trigger_projr(1) this]
  have a: "isTrans ?s" and p: "1 \<le> prog ?s + morphSpeed"
    by (simp_all add: first_trigger_projr(2) morphSpeed_def)
  from morph_endpoint_exact[OF r a p, of "(0, 0)"] r a p show ?thesis by blast
qed

text \<open>C3 as stated fails in the arithmetic of the code. With eased value 1, a cell whose
  \<^verbatim>\<open>from\<close> is 17.87638282775879 and whose \<^verbatim>\<open>to\<close> is 9.184850891462946e-15, both of them
  single precision numbers, is written as 1.0658141036401503e-14: the array after the loop
  is not \<^verbatim>\<open>to\<close>. The arrays have the 45000 cells of the particle buffer and the 6000 of
  the sparkle buffer.\<close>

theorem endpoint_write_is_rounded:
  "fround (9372373 / 2 ^ 19) = 9372373 / 2 ^ 19 \<and> fround (5421779 / 2 ^ 69) = 5421779 / 2 ^ 69 \<and>
   fst (morph_loop_ieee (Some (9372373 / 2 ^ 19) # replicate 44999 (Some 0))
          (Some (5421779 / 2 ^ 69) # replicate 44999 (Some 0)) 1 0
          (Some (9372373 / 2 ^ 19) # replicate 44999 (Some 0), Some (9372373 / 2 ^ 19) # replicate 5999 (Some 0))) ! 0
     = Some (3 / 2 ^ 48) \<and>
   fst (morph_loop_ieee (Some (9372373 / 2 ^ 19) # replicate 44999 (Some 0))
          (Some (5421779 / 2 ^ 69) # replicate 44999 (Some 0)) 1 0
          (Some (9372373 / 2 ^ 19) # replicate 44999 (Some 0), Some (9372373 / 2 ^ 19) # replicate 5999 (Some 0)))
     \<noteq> Some (5421779 / 2 ^ 69) # replicate 44999 (Some 0)"
proof -
  let ?from = "Some (9372373 / 2 ^ 19) # replicate 44999 (Some (0::real))"
  let ?to = "Some (5421779 / 2 ^ 69) # replicate 44999 (Some (0::real))"
  let ?r = "fst (morph_loop_ieee ?from ?to 1 0 (?from, Some (9372373 / 2 ^ 19) # replicate 5999 (Some 0)))"
  have "?r = map (\<lambda>j. Float32_store (lerp_ieee (rd ?from j) (rd ?to j) 1)) [0..<length ?from]"
    using morph_loop_ieee_fst[of 0 ?from ?from ?to 1 "Some (9372373 / 2 ^ 19) # replicate 5999 (Some 0)"] by simp
  then have "?r ! 0 = Float32_store (lerp_ieee (rd ?from 0) (rd ?to 0) 1)"
    by simp
  then have cell: "?r ! 0 = Some (3 / 2 ^ 48)"
    by (simp only: rd_Cons_0 endpoint_cell)
  have "?r ! 0 \<noteq> ?to ! 0" unfolding cell by simp
  then have "?r \<noteq> ?to" by metis
  with cell fround_from fround_to show ?thesis by blast
qed

text \<open>When the difference \<open>to[i] - from[i]\<close> is a double, the written cell is the cell of
  \<^verbatim>\<open>to\<close> in the arithmetic of the code as well (\<open>lerp_ieee_exact\<close>).\<close>

text \<open>C9: a trigger during an active transition does nothing: the guard
  \<^verbatim>\<open>!isTrans.current\<close> fails and the state, with \<^verbatim>\<open>from\<close>, \<^verbatim>\<open>to\<close>, \<^verbatim>\<open>next\<close> and
  the progress, is returned as it was. So when the frames that follow bring the progress to
  1 or beyond, the particle position array is the \<^verbatim>\<open>to\<close> array, and the pattern index
  the \<^verbatim>\<open>next\<close>, that were scheduled before the second trigger.\<close>

theorem retrigger_is_noop:
  assumes "isTrans s"
  shows "triggerMorph knot rnd s = Inr s \<and>
         (reachable knot s \<longrightarrow> prog s + real (length frs) * morphSpeed < 1 \<longrightarrow>
          1 \<le> prog s + real (length frs) * morphSpeed + morphSpeed \<longrightarrow>
            particleArr (useFrame fr (ticks frs (projr (triggerMorph knot rnd s)))) = ud_to s \<and>
            currentPattern (useFrame fr (ticks frs (projr (triggerMorph knot rnd s)))) = ud_next s \<and>
            \<not> isTrans (useFrame fr (ticks frs (projr (triggerMorph knot rnd s)))))"
proof (intro conjI impI)
  show t: "triggerMorph knot rnd s = Inr s"
    using assms by (simp add: triggerMorph_def)
  assume r: "reachable knot s" and lt: "prog s + real (length frs) * morphSpeed < 1"
    and ge: "1 \<le> prog s + real (length frs) * morphSpeed + morphSpeed"
  from ticks_active[OF assms lt] have a: "isTrans (ticks frs s)"
    and p: "prog (ticks frs s) = prog s + real (length frs) * morphSpeed" by blast+
  from ge have e: "1 \<le> prog (ticks frs s) + morphSpeed" by (simp add: p)
  note F = final_frame(1,2,3)[OF reachable_ticks[OF r] a e, of fr]
  show "particleArr (useFrame fr (ticks frs (projr (triggerMorph knot rnd s)))) = ud_to s"
    "currentPattern (useFrame fr (ticks frs (projr (triggerMorph knot rnd s)))) = ud_next s"
    "\<not> isTrans (useFrame fr (ticks frs (projr (triggerMorph knot rnd s))))"
    unfolding t using F by (simp_all add: ticks_userData)
qed

text \<open>The theorem at the state right after the first trigger: a second trigger with
  another oracle, then 34 frames.\<close>

theorem retrigger_is_noop_witness:
  "isTrans (projr (triggerMorph [zero3] (\<lambda>_. 0) init_state)) \<and>
   reachable [zero3] (projr (triggerMorph [zero3] (\<lambda>_. 0) init_state)) \<and>
   prog (projr (triggerMorph [zero3] (\<lambda>_. 0) init_state))
     + real (length (replicate 33 (0::real, 0::real))) * morphSpeed < 1 \<and>
   1 \<le> prog (projr (triggerMorph [zero3] (\<lambda>_. 0) init_state))
     + real (length (replicate 33 (0::real, 0::real))) * morphSpeed + morphSpeed \<and>
   triggerMorph [zero3] (\<lambda>_. 1 / 2) (projr (triggerMorph [zero3] (\<lambda>_. 0) init_state)) =
     Inr (projr (triggerMorph [zero3] (\<lambda>_. 0) init_state)) \<and>
   particleArr (useFrame (0, 0) (ticks (replicate 33 (0, 0))
       (projr (triggerMorph [zero3] (\<lambda>_. 1 / 2) (projr (triggerMorph [zero3] (\<lambda>_. 0) init_state))))))
     = ud_to (projr (triggerMorph [zero3] (\<lambda>_. 0) init_state))"
proof -
  let ?s1 = "projr (triggerMorph [zero3] (\<lambda>_. 0) init_state)"
  note h = first_trigger_projr(1,4)[of "[zero3]"]
  have lt: "prog ?s1 + real (length (replicate 33 (0::real, 0::real))) * morphSpeed < 1"
    and ge: "1 \<le> prog ?s1 + real (length (replicate 33 (0::real, 0::real))) * morphSpeed + morphSpeed"
    by (simp_all add: first_trigger_projr(2) morphSpeed_def)
  from retrigger_is_noop[OF h(1), of "[zero3]" "\<lambda>_. 1 / 2" "replicate 33 (0, 0)" "(0, 0)"] h lt ge
  show ?thesis by blast
qed

lemma ceiling_steps: "\<lceil>1 / morphSpeed\<rceil> = 34"
  by (simp add: morphSpeed_def ceiling_eq_iff)

lemma ticks_last:
  assumes "isTrans s" "prog s = 0" "length frs = 34"
  shows "isTrans (ticks (butlast frs) s)" "prog (ticks (butlast frs) s) = 99 / 100"
    "currentPattern (ticks (butlast frs) s) = currentPattern s"
    "ticks frs s = useFrame (last frs) (ticks (butlast frs) s)"
proof -
  from assms(3) have ne: "frs \<noteq> []" by auto
  have l: "length (butlast frs) = 33" using assms(3) by simp
  have "prog s + real (length (butlast frs)) * morphSpeed < 1"
    unfolding l assms(2) by (simp add: morphSpeed_def)
  from ticks_active[OF assms(1) this]
  show "isTrans (ticks (butlast frs) s)" "prog (ticks (butlast frs) s) = 99 / 100"
    "currentPattern (ticks (butlast frs) s) = currentPattern s"
    unfolding l assms(2) by (simp_all add: morphSpeed_def)
  show "ticks frs s = useFrame (last frs) (ticks (butlast frs) s)"
    using ticks_snoc[of "butlast frs" "last frs" s] ne by simp
qed

text \<open>C5 (as amended): from an idle state with pattern index 0, one trigger followed by 34
  frames (whatever their time stamps and deltas) ends idle, with the pattern index set to 1
  and with the particle position array holding the point set that \<^verbatim>\<open>PATTERNS[1]\<close>, the
  normalised \<^verbatim>\<open>halvorsen\<close> set, returned to the trigger, up to floating-point rounding:
  the equality is that of exact arithmetic. The generator pads with random picks, so the
  point set is the one of the trigger's own oracle \<open>rnd\<close>.\<close>

theorem one_morph_end_to_end:
  assumes "reachable knot s0" "\<not> isTrans s0" "currentPattern s0 = 0" "random_ok rnd"
    and "length frs = 34"
  shows "\<exists>s1 pts. triggerMorph knot rnd s0 = Inr s1 \<and> halvorsen rnd PARTICLE_COUNT = Inr pts \<and>
           length pts = PARTICLE_COUNT \<and> \<not> isTrans (ticks frs s1) \<and> currentPattern (ticks frs s1) = 1 \<and>
           particleArr (ticks frs s1) = coords pts"
proof -
  from trigger_from_start[OF assms(2,3,4), of knot] obtain pts s1 where
    h: "halvorsen rnd PARTICLE_COUNT = Inr pts" "length pts = PARTICLE_COUNT"
    and s1: "s1 = s0\<lparr>isTrans := True, prog := 0, ud_from := particleArr s0,
                      ud_to := coords pts, ud_next := 1\<rparr>"
    and t: "triggerMorph knot rnd s0 = Inr s1" by blast
  have r1: "reachable knot s1" by (rule reachable.triggered[OF assms(1,4) t])
  have a1: "isTrans s1" and p1: "prog s1 = 0" by (simp_all add: s1)
  let ?s = "ticks (butlast frs) s1"
  note L = ticks_last[OF a1 p1 assms(5)]
  have r: "reachable knot ?s" by (rule reachable_ticks[OF r1])
  have p: "1 \<le> prog ?s + morphSpeed" by (simp add: L(2) morphSpeed_def)
  from final_frame(1,2,3)[OF r L(1) p, of "last frs"]
  have "particleArr (ticks frs s1) = coords pts" "\<not> isTrans (ticks frs s1)"
    "currentPattern (ticks frs s1) = 1"
    unfolding L(4)[symmetric] ticks_userData by (simp_all add: s1)
  with t h show ?thesis by blast
qed

text \<open>The theorem at the created state, with the oracle that always answers 0.\<close>

theorem one_morph_end_to_end_witness:
  "reachable [zero3] init_state \<and> \<not> isTrans init_state \<and> currentPattern init_state = 0 \<and>
   random_ok (\<lambda>_. 0) \<and> length (replicate 34 (0::real, 0::real)) = 34 \<and>
   (\<exists>s1 pts. triggerMorph [zero3] (\<lambda>_. 0) init_state = Inr s1 \<and>
       halvorsen (\<lambda>_. 0) PARTICLE_COUNT = Inr pts \<and> length pts = PARTICLE_COUNT \<and>
       \<not> isTrans (ticks (replicate 34 (0, 0)) s1) \<and>
       currentPattern (ticks (replicate 34 (0, 0)) s1) = 1 \<and>
       particleArr (ticks (replicate 34 (0, 0)) s1) = coords pts)"
proof -
  have h: "reachable [zero3] init_state" "\<not> isTrans init_state" "currentPattern init_state = 0"
    "random_ok (\<lambda>_. 0)" "length (replicate 34 (0::real, 0::real)) = 34"
    by (rule reachable.created) (simp_all add: init_state_def random_ok_def)
  from one_morph_end_to_end[OF h] h show ?thesis by blast
qed

text \<open>C5 as stated fails in the arithmetic of the code: the trigger stores the target
  point set into a \<^verbatim>\<open>Float32Array\<close>, and the frames store into one. For a point set of
  \<open>PARTICLE_COUNT\<close> points with the coordinate 25.68936035178182, a double that is not a
  single precision number, the \<^verbatim>\<open>to\<close> array holds 25.689359664916992, the last frame
  of a morph from the zero buffer writes that number, and the particle array is not the
  point set. The same happens to every coordinate that is not a single precision number.\<close>

theorem buffer_holds_single_precision:
  "fl64 (7230912106729437 / 2 ^ 48) = 7230912106729437 / 2 ^ 48 \<and>
   to_loop_Float32 (replicate PARTICLE_COUNT (Vector3 (7230912106729437 / 2 ^ 48) 0 0)) 0
       (replicate (PARTICLE_COUNT * 3) (Some 0)) ! 0 = Some (13468623 / 2 ^ 19) \<and>
   fst (morph_loop_ieee (replicate (PARTICLE_COUNT * 3) (Some 0))
          (to_loop_Float32 (replicate PARTICLE_COUNT (Vector3 (7230912106729437 / 2 ^ 48) 0 0)) 0
             (replicate (PARTICLE_COUNT * 3) (Some 0))) 1 0
          (replicate (PARTICLE_COUNT * 3) (Some 0), replicate (SPARK_COUNT * 3) (Some 0))) ! 0
     = Some (13468623 / 2 ^ 19) \<and>
   fst (morph_loop_ieee (replicate (PARTICLE_COUNT * 3) (Some 0))
          (to_loop_Float32 (replicate PARTICLE_COUNT (Vector3 (7230912106729437 / 2 ^ 48) 0 0)) 0
             (replicate (PARTICLE_COUNT * 3) (Some 0))) 1 0
          (replicate (PARTICLE_COUNT * 3) (Some 0), replicate (SPARK_COUNT * 3) (Some 0)))
     \<noteq> coords (replicate PARTICLE_COUNT (Vector3 (7230912106729437 / 2 ^ 48) 0 0))"
proof -
  let ?x = "7230912106729437 / 2 ^ 48 :: real"
  let ?t = "13468623 / 2 ^ 19 :: real"
  let ?pts = "replicate PARTICLE_COUNT (Vector3 ?x 0 0)"
  let ?zeros = "replicate (PARTICLE_COUNT * 3) (Some (0::real))"
  let ?to = "to_loop_Float32 ?pts 0 ?zeros"
  let ?r = "fst (morph_loop_ieee ?zeros ?to 1 0 (?zeros, replicate (SPARK_COUNT * 3) (Some 0)))"
  have pc: "0 < PARTICLE_COUNT" by (simp add: PARTICLE_COUNT_def)
  have "?to = coords (map fround3 ?pts)"
    unfolding to_loop_Float32_eq by (rule to_loop_coords) simp
  also have "map fround3 ?pts = replicate PARTICLE_COUNT (Vector3 ?t 0 0)"
    by (simp only: map_replicate fround3_def vec3.sel fround_coordinate fround_zero)
  finally have to: "?to = coords (replicate PARTICLE_COUNT (Vector3 ?t 0 0))" .
  have to0: "?to ! 0 = Some ?t"
    unfolding to using coords_replicate_0[OF pc, of "Vector3 ?t 0 0"] by (simp only: vec3.sel)
  have lto: "0 < length ?to"
    unfolding to using pc by (simp add: length_coords)
  have c0: "coords ?pts ! 0 = Some ?x"
    using coords_replicate_0[OF pc, of "Vector3 ?x 0 0"] by (simp only: vec3.sel)
  have "?r = map (\<lambda>j. Float32_store (lerp_ieee (rd ?zeros j) (rd ?to j) 1)) [0..<length ?zeros]"
    using morph_loop_ieee_fst[of 0 ?zeros ?zeros ?to 1 "replicate (SPARK_COUNT * 3) (Some 0)"] by simp
  then have "?r ! 0 = Float32_store (lerp_ieee (rd ?zeros 0) (rd ?to 0) 1)"
    using pc by simp
  also have "rd ?zeros 0 = Some 0"
    using pc by (simp add: rd_def)
  also have "rd ?to 0 = Some ?t"
    using lto by (simp only: rd_def to0 if_True)
  also have "Float32_store (lerp_ieee (Some 0) (Some ?t) 1) = Some ?t"
    by (simp only: lerp_ieee_def Float32_store_def option.case option.map diff_zero mult_1_right
        add_0 fl64_stored fround_stored)
  finally have r0: "?r ! 0 = Some ?t" .
  have "?r ! 0 \<noteq> coords ?pts ! 0" unfolding r0 c0 by simp
  then have "?r \<noteq> coords ?pts" by metis
  with fl64_coordinate to0 r0 show ?thesis by blast
qed

text \<open>C6 (as amended): after a trigger the progress grows by the fixed step 0.03 with every
  frame, whatever the frame's delta, so it is non-decreasing; \<open>k \<le> 34\<close> frames after the
  trigger it is \<open>0.03 k\<close>. The transition is active exactly while \<open>k < 34\<close>, and the progress
  reaches or exceeds 1 first at frame \<open>34 = \<lceil>1 / 0.03\<rceil>\<close>, where the eased value is exactly 1
  (the progress itself is 1.02).\<close>

theorem morph_progress_steps:
  assumes "isTrans s" "prog s = 0" "length frs = k" "k \<le> 34"
  shows "prog (ticks frs s) = real k * morphSpeed \<and> (isTrans (ticks frs s) \<longleftrightarrow> k < 34) \<and>
         (1 \<le> prog (ticks frs s) \<longleftrightarrow> k = 34) \<and> eased (prog (ticks frs s)) \<le> 1 \<and>
         (k = 34 \<longrightarrow> eased (prog (ticks frs s)) = 1) \<and> \<lceil>1 / morphSpeed\<rceil> = 34"
proof (cases "k = 34")
  case False
  with assms(4) have k: "k < 34" by simp
  then have "prog s + real (length frs) * morphSpeed < 1"
    unfolding assms(2,3) by (simp add: morphSpeed_def)
  from ticks_active[OF assms(1) this] k show ?thesis
    unfolding assms(2,3) by (simp add: ceiling_steps morphSpeed_def eased_def)
next
  case True
  with assms(3) have l: "length frs = 34" by simp
  note L = ticks_last[OF assms(1,2) l]
  have "prog (ticks frs s) = 102 / 100" "\<not> isTrans (ticks frs s)"
    unfolding L(4) by (simp_all add: useFrame_prog[OF L(1)] useFrame_isTrans[OF L(1)] L(2) morphSpeed_def)
  with True show ?thesis by (simp add: ceiling_steps morphSpeed_def eased_def)
qed

text \<open>The theorem at the state right after the first trigger, with 34 frames of 1/60 s.\<close>

theorem morph_progress_steps_witness:
  "isTrans (projr (triggerMorph [zero3] (\<lambda>_. 0) init_state)) \<and>
   prog (projr (triggerMorph [zero3] (\<lambda>_. 0) init_state)) = 0 \<and>
   length (replicate 34 (0::real, 1 / 60 :: real)) = 34 \<and> (34::nat) \<le> 34 \<and>
   prog (ticks (replicate 34 (0, 1 / 60)) (projr (triggerMorph [zero3] (\<lambda>_. 0) init_state))) = 34 * morphSpeed \<and>
   \<not> isTrans (ticks (replicate 34 (0, 1 / 60)) (projr (triggerMorph [zero3] (\<lambda>_. 0) init_state))) \<and>
   eased (prog (ticks (replicate 34 (0, 1 / 60)) (projr (triggerMorph [zero3] (\<lambda>_. 0) init_state)))) = 1"
proof -
  have h: "length (replicate 34 (0::real, 1 / 60 :: real)) = 34" "(34::nat) \<le> 34" by simp_all
  have e: "real 34 * morphSpeed = 34 * morphSpeed" by simp
  from morph_progress_steps[OF first_trigger_projr(1,2) h, of "[zero3]"]
    first_trigger_projr(1,2)[of "[zero3]"] h
  show ?thesis unfolding e by blast
qed

text \<open>C6 as stated fails: the progress never equals 1. The first trigger succeeds; after
  it the progress is 0.99 at frame 33 and 1.02 at frame 34, and none of its values at the
  frames 0 to 34 is 1.\<close>

theorem progress_never_exactly_one:
  "triggerMorph [zero3] (\<lambda>_. 0) init_state = Inr (projr (triggerMorph [zero3] (\<lambda>_. 0) init_state)) \<and>
   prog (ticks (replicate 33 (0, 0)) (projr (triggerMorph [zero3] (\<lambda>_. 0) init_state))) = 99 / 100 \<and>
   prog (ticks (replicate 34 (0, 0)) (projr (triggerMorph [zero3] (\<lambda>_. 0) init_state))) = 102 / 100 \<and>
   1 \<notin> set (map (\<lambda>k. prog (ticks (replicate k (0, 0))
                      (projr (triggerMorph [zero3] (\<lambda>_. 0) init_state)))) [0..<35])"
proof -
  let ?s1 = "projr (triggerMorph [zero3] (\<lambda>_. 0) init_state)"
  have step: "prog (ticks (replicate k (0, 0)) ?s1) = real k * (3 / 100)" if "k \<le> 34" for k
  proof (cases "k = 34")
    case False
    with that have "prog ?s1 + real (length (replicate k (0::real, 0::real))) * morphSpeed < 1"
      by (simp add: first_trigger_projr(2) morphSpeed_def)
    from ticks_active[OF first_trigger_projr(1) this] show ?thesis
      by (simp add: first_trigger_projr(2) morphSpeed_def)
  next
    case True
    have l: "length (replicate 34 (0::real, 0::real)) = 34" by simp
    note L = ticks_last[OF first_trigger_projr(1,2) l, of "[zero3]"]
    show ?thesis unfolding True L(4) by (simp add: useFrame_prog[OF L(1)] L(2) morphSpeed_def)
  qed
  have "prog (ticks (replicate k (0, 0)) ?s1) \<noteq> 1" if "k < 35" for k
  proof
    assume "prog (ticks (replicate k (0, 0)) ?s1) = 1"
    with step[of k] that have "real k * 3 = 100" by simp
    then have "real (k * 3) = real 100" by simp
    then have "k * 3 = 100" by (simp only: of_nat_eq_iff)
    then show False by presburger
  qed
  then have "1 \<notin> set (map (\<lambda>k. prog (ticks (replicate k (0, 0)) ?s1)) [0..<35])"
    by auto
  with step[of 33] step[of 34] first_trigger_projr(3)[of "[zero3]"] show ?thesis
    by simp
qed

end
